theory Spec2Isabelle
  imports Complex_Main
begin

section \<open>Product store (js/data.js)\<close>

text \<open>
  A product as the JSON documents describe it. Identifiers are modelled as integers and
  every text field as a byte string; the tag set is the ordered array of the document.
\<close>

record product =
  p_id :: int
  p_name :: string
  p_description :: string
  p_price :: string
  p_country :: string
  p_category :: string
  p_images :: "string list"
  p_tags :: "string list"

text \<open>
  The values the query functions hand back. The filter cache is one \<open>Map\<close> shared by
  all queries, so a cached value can be any of these.
\<close>

datatype jsval =
    Undefined
  | Null
  | ProductList "product list"
  | ProductObj product
  | StringList "string list"
  | OtherValue

datatype exn = TypeError | NetworkError | HttpError nat | SyntaxError | InvalidFormat

datatype level = Info | Warn | Error | Debug

text \<open>
  The module variable \<open>products\<close> starts as the empty array. The fallback branch of
  \<open>loadProducts\<close> assigns \<open>data.products\<close> without looking at it, so the variable can
  also hold \<open>undefined\<close> (\<open>Unset\<close>), \<open>null\<close>, or any other JSON value that is not an
  array: a number, a string, a boolean, an object. Of such a value the module reads only
  \<open>length\<close>, to print it and to compare it with 0, and \<open>Foreign\<close> keeps what that gives:
  the comparison holds, it does not (the \<open>length\<close> of a number is \<open>undefined\<close>), or the
  \<open>length\<close> is an object that cannot be converted to a primitive, so that printing and
  comparing both throw (the \<open>length\<close> of \<open>{"length": {"toString": 5}}\<close>). Its \<open>filter\<close>,
  \<open>find\<close> and \<open>forEach\<close> are not functions.
\<close>

datatype length_test = LengthPositive | LengthNotPositive | LengthThrows

datatype products_var = Loaded "product list" | Unset | NullValue | Foreign length_test

text \<open>
  The variables of the two data modules. Of \<open>statsCache\<close> only whether it holds a
  statistics object is kept; \<open>hasProductLoader\<close> says whether \<open>window.ProductLoader\<close> with
  its \<open>loadAllProducts\<close> is present; \<open>logged\<close> is what \<open>safeLog\<close> has written, each
  message by a short name.

  The scripts are classic scripts and share one global scope, where a later top-level
  function declaration replaces an earlier one of the same name. js/load-all-products.js,
  js/data.js and js/events.js each declare \<open>clearCaches\<close>, and the module list of
  js/app.js loads them one after the other in this order, so once js/events.js is loaded (\<open>eventsLoaded\<close>) the bare name \<open>clearCaches\<close> inside
  js/data.js means the function of js/events.js. The export \<open>window.ProductData.clearCaches\<close>
  stays the function of js/data.js.
\<close>

record data_state =
  products :: products_var
  filterCache :: "string \<rightharpoonup> jsval"
  statsCache :: bool
  dataIsLoading :: bool
  productsCache :: "string \<rightharpoonup> product list"
  loaderIsLoading :: bool
  hasProductLoader :: bool
  eventsLoaded :: bool
  logged :: "(level \<times> string) list"

definition safeLog :: "level \<Rightarrow> string \<Rightarrow> data_state \<Rightarrow> data_state" where
  "safeLog lv msg s = s\<lparr>logged := logged s @ [(lv, msg)]\<rparr>"

subsection \<open>Strings and numbers of the host language\<close>

definition digit_char :: "nat \<Rightarrow> char" where
  "digit_char d = ''0123456789'' ! d"

fun string_of_nat :: "nat \<Rightarrow> string" where
  "string_of_nat n =
     (if n < 10 then [digit_char n] else string_of_nat (n div 10) @ [digit_char (n mod 10)])"

declare string_of_nat.simps [simp del]

text \<open>A number inside a template literal, for the integers.\<close>

definition string_of_int :: "int \<Rightarrow> string" where
  "string_of_int i = (if i < 0 then CHR ''-'' # string_of_nat (nat (- i)) else string_of_nat (nat i))"

text \<open>\<open>toLowerCase\<close>, \<open>trim\<close> and \<open>includes\<close> on strings of ASCII characters.\<close>

definition toLowerCase_char :: "char \<Rightarrow> char" where
  "toLowerCase_char c =
     (case map_of (zip ''ABCDEFGHIJKLMNOPQRSTUVWXYZ'' ''abcdefghijklmnopqrstuvwxyz'') c of
        Some l \<Rightarrow> l
      | None \<Rightarrow> c)"

definition toLowerCase :: "string \<Rightarrow> string" where
  "toLowerCase s = map toLowerCase_char s"

definition is_space :: "char \<Rightarrow> bool" where
  "is_space c = (c \<in> set [CHR 0x09, CHR 0x0A, CHR 0x0B, CHR 0x0C, CHR 0x0D, CHR 0x20])"

definition trim :: "string \<Rightarrow> string" where
  "trim s = rev (dropWhile is_space (rev (dropWhile is_space s)))"

fun includes_str :: "string \<Rightarrow> string \<Rightarrow> bool" where
  "includes_str [] q = (q = [])"
| "includes_str (c # cs) q = (take (length q) (c # cs) = q \<or> includes_str cs q)"

definition is_digit :: "char \<Rightarrow> bool" where
  "is_digit c = (c \<in> set ''0123456789'')"

definition digit_of_char :: "char \<Rightarrow> nat" where
  "digit_of_char c = length (takeWhile (\<lambda>d. d \<noteq> c) ''0123456789'')"

definition digits_value :: "string \<Rightarrow> nat" where
  "digits_value ds = foldl (\<lambda>acc c. 10 * acc + digit_of_char c) 0 ds"

text \<open>
  \<open>parseFloat(price.replace(/[^\d.]/g, ''))\<close>: the digits and dots of the price string,
  read as a decimal literal (digits, an optional dot, digits). \<open>None\<close> is \<open>NaN\<close>. The value
  is kept as an exact rational; the rounding to a double is not modelled.
\<close>

definition parsePrice :: "string \<Rightarrow> rat option" where
  "parsePrice price =
     (let s = filter (\<lambda>c. is_digit c \<or> c = CHR ''.'') price;
          ip = takeWhile is_digit s;
          rest = dropWhile is_digit s;
          fp = (case rest of [] \<Rightarrow> [] | c # r \<Rightarrow> takeWhile is_digit r)
      in if ip = [] \<and> fp = [] then None
         else Some (of_nat (digits_value ip) + of_nat (digits_value fp) / 10 ^ length fp))"

subsection \<open>Cached queries\<close>

definition cache_set :: "string \<Rightarrow> jsval \<Rightarrow> data_state \<Rightarrow> data_state" where
  "cache_set k v s = s\<lparr>filterCache := (filterCache s)(k \<mapsto> v)\<rparr>"

text \<open>What reading the variable \<open>products\<close> as a value gives.\<close>

definition products_value :: "data_state \<Rightarrow> jsval" where
  "products_value s =
     (case products s of
        Loaded ps \<Rightarrow> ProductList ps
      | Unset \<Rightarrow> Undefined
      | NullValue \<Rightarrow> Null
      | Foreign l \<Rightarrow> OtherValue)"

text \<open>
  \<open>products.filter(f)\<close>, then caching the array under \<open>k\<close> and returning it. On a value
  that is not an array the call throws before anything is cached.
\<close>

definition filter_and_cache ::
  "string \<Rightarrow> (product \<Rightarrow> bool) \<Rightarrow> data_state \<Rightarrow> (exn + jsval) \<times> data_state" where
  "filter_and_cache k f s =
     (case products s of
        Loaded ps \<Rightarrow> (Inr (ProductList (filter f ps)), cache_set k (ProductList (filter f ps)) s)
      | _ \<Rightarrow> (Inl TypeError, s))"

definition filterProductsByCategory :: "string \<Rightarrow> data_state \<Rightarrow> (exn + jsval) \<times> data_state" where
  "filterProductsByCategory category s =
     (case filterCache s category of
        Some v \<Rightarrow> (Inr v, s)
      | None \<Rightarrow>
          if category = ''all'' then (Inr (products_value s), cache_set category (products_value s) s)
          else filter_and_cache category (\<lambda>p. category \<in> set (p_tags p)) s)"

definition getProductById :: "int \<Rightarrow> data_state \<Rightarrow> (exn + jsval) \<times> data_state" where
  "getProductById i s =
     (let cacheKey = ''product_'' @ string_of_int i in
      case filterCache s cacheKey of
        Some v \<Rightarrow> (Inr v, s)
      | None \<Rightarrow>
          (case products s of
             Loaded ps \<Rightarrow>
               (let product = (case find (\<lambda>p. p_id p = i) ps of Some p \<Rightarrow> ProductObj p | None \<Rightarrow> Null)
                in (Inr product, cache_set cacheKey product s))
           | _ \<Rightarrow> (Inl TypeError, s)))"

text \<open>Insertion into a \<open>Set\<close> keeps the first occurrence of every element.\<close>

definition set_add :: "string list \<Rightarrow> string \<Rightarrow> string list" where
  "set_add acc t = (if t \<in> set acc then acc else acc @ [t])"

definition getUniqueCategories :: "data_state \<Rightarrow> (exn + jsval) \<times> data_state" where
  "getUniqueCategories s =
     (case filterCache s ''unique_categories'' of
        Some v \<Rightarrow> (Inr v, s)
      | None \<Rightarrow>
          (case products s of
             Loaded ps \<Rightarrow>
               (let uniqueCategories = StringList (foldl set_add [] (concat (map p_tags ps)))
                in (Inr uniqueCategories, cache_set ''unique_categories'' uniqueCategories s))
           | _ \<Rightarrow> (Inl TypeError, s)))"

definition search_match :: "string \<Rightarrow> product \<Rightarrow> bool" where
  "search_match normalizedQuery p =
     (includes_str (toLowerCase (p_name p)) normalizedQuery \<or>
      includes_str (toLowerCase (p_description p)) normalizedQuery \<or>
      includes_str (toLowerCase (p_country p)) normalizedQuery \<or>
      includes_str (toLowerCase (p_category p)) normalizedQuery)"

definition searchProducts :: "string \<Rightarrow> data_state \<Rightarrow> (exn + jsval) \<times> data_state" where
  "searchProducts query s =
     (if query = [] \<or> trim query = [] then (Inr (products_value s), s)
      else
        (let normalizedQuery = trim (toLowerCase query) in
         case filterCache s (''search_'' @ normalizedQuery) of
           Some v \<Rightarrow> (Inr v, s)
         | None \<Rightarrow> filter_and_cache (''search_'' @ normalizedQuery) (search_match normalizedQuery) s))"

definition price_in_range :: "int \<Rightarrow> int \<Rightarrow> product \<Rightarrow> bool" where
  "price_in_range minPrice maxPrice p =
     (case parsePrice (p_price p) of
        None \<Rightarrow> False
      | Some price \<Rightarrow> of_int minPrice \<le> price \<and> price \<le> of_int maxPrice)"

definition getProductsByPriceRange :: "int \<Rightarrow> int \<Rightarrow> data_state \<Rightarrow> (exn + jsval) \<times> data_state" where
  "getProductsByPriceRange minPrice maxPrice s =
     (let cacheKey = ''price_'' @ string_of_int minPrice @ ''_'' @ string_of_int maxPrice in
      case filterCache s cacheKey of
        Some v \<Rightarrow> (Inr v, s)
      | None \<Rightarrow> filter_and_cache cacheKey (price_in_range minPrice maxPrice) s)"

definition getProductsByCountry :: "string \<Rightarrow> data_state \<Rightarrow> (exn + jsval) \<times> data_state" where
  "getProductsByCountry country s =
     (let cacheKey = ''country_'' @ country in
      case filterCache s cacheKey of
        Some v \<Rightarrow> (Inr v, s)
      | None \<Rightarrow> filter_and_cache cacheKey (\<lambda>p. toLowerCase (p_country p) = toLowerCase country) s)"

definition clearCaches :: "data_state \<Rightarrow> data_state" where
  "clearCaches s = safeLog Info ''caches cleared'' (s\<lparr>filterCache := Map.empty, statsCache := False\<rparr>)"

text \<open>
  The call \<open>clearCaches()\<close> as \<open>loadProducts\<close> and \<open>refreshProducts\<close> write it, by the bare
  name. The function of js/events.js clears the maps of that module (handlers, form
  validation, cached elements), none of which is a variable of the data modules, and
  writes its own log line.
\<close>

definition call_clearCaches :: "data_state \<Rightarrow> data_state" where
  "call_clearCaches s =
     (if eventsLoaded s then safeLog Info ''event handler caches cleared'' s else clearCaches s)"

text \<open>
  The queries of one cache epoch, as a sequence of calls whose results are dropped: what
  earlier callers leave behind is the filter cache.
\<close>

datatype query =
    QCategory string
  | QById int
  | QSearch string
  | QPrice int int
  | QCountry string
  | QUnique

fun run_query :: "query \<Rightarrow> data_state \<Rightarrow> (exn + jsval) \<times> data_state" where
  "run_query (QCategory c) s = filterProductsByCategory c s"
| "run_query (QById i) s = getProductById i s"
| "run_query (QSearch q) s = searchProducts q s"
| "run_query (QPrice lo hi) s = getProductsByPriceRange lo hi s"
| "run_query (QCountry c) s = getProductsByCountry c s"
| "run_query QUnique s = getUniqueCategories s"

fun run_queries :: "query list \<Rightarrow> data_state \<Rightarrow> data_state" where
  "run_queries [] s = s"
| "run_queries (q # qs) s = run_queries qs (snd (run_query q s))"

text \<open>The key under which a query stores its result (\<open>None\<close>: the query stores nothing).\<close>

fun cache_key :: "query \<Rightarrow> string option" where
  "cache_key (QCategory c) = Some c"
| "cache_key (QById i) = Some (''product_'' @ string_of_int i)"
| "cache_key (QSearch q) = (if q = [] \<or> trim q = [] then None else Some (''search_'' @ trim (toLowerCase q)))"
| "cache_key (QPrice lo hi) = Some (''price_'' @ string_of_int lo @ ''_'' @ string_of_int hi)"
| "cache_key (QCountry c) = Some (''country_'' @ c)"
| "cache_key QUnique = Some ''unique_categories''"

text \<open>Recomputing a query from the product list, with no cache.\<close>

fun recompute :: "query \<Rightarrow> product list \<Rightarrow> jsval" where
  "recompute (QCategory c) ps =
     (if c = ''all'' then ProductList ps else ProductList (filter (\<lambda>p. c \<in> set (p_tags p)) ps))"
| "recompute (QById i) ps = (case find (\<lambda>p. p_id p = i) ps of Some p \<Rightarrow> ProductObj p | None \<Rightarrow> Null)"
| "recompute (QSearch q) ps =
     (if q = [] \<or> trim q = [] then ProductList ps
      else ProductList (filter (search_match (trim (toLowerCase q))) ps))"
| "recompute (QPrice lo hi) ps = ProductList (filter (price_in_range lo hi) ps)"
| "recompute (QCountry c) ps = ProductList (filter (\<lambda>p. toLowerCase (p_country p) = toLowerCase c) ps)"
| "recompute QUnique ps = StringList (foldl set_add [] (concat (map p_tags ps)))"


text \<open>
  The filter cache is sound for the list \<open>ps\<close> after the queries \<open>asked\<close>: every entry is
  what one of those queries, storing under that key, recomputes from \<open>ps\<close>.
\<close>

definition cache_sound :: "query list \<Rightarrow> product list \<Rightarrow> data_state \<Rightarrow> bool" where
  "cache_sound asked ps s =
     (products s = Loaded ps \<and>
      (\<forall>k v. filterCache s k = Some v \<longrightarrow>
         (\<exists>q\<in>set asked. cache_key q = Some k \<and> v = recompute q ps)))"

text \<open>Queries that store under one key agree on what they recompute.\<close>

definition agree_on_keys :: "product list \<Rightarrow> query list \<Rightarrow> bool" where
  "agree_on_keys ps qs =
     (\<forall>q\<in>set qs. \<forall>q'\<in>set qs. cache_key q = cache_key q' \<longrightarrow> cache_key q \<noteq> None \<longrightarrow>
        recompute q ps = recompute q' ps)"

section \<open>Product loading (js/load-all-products.js and loadProducts of js/data.js)\<close>

text \<open>
  What a \<open>fetch\<close> of a static JSON document can end in: the promise rejects (network
  error), or a response arrives with an HTTP status and a body that parses or does not.
  A parsed document is an array of products, an object, \<open>null\<close>, or some other primitive.
  Of an object the loader reads the property \<open>products\<close>: it is absent, \<open>null\<close>, an array
  of products, or another value (\<open>OtherField l\<close>, where \<open>l\<close> says what reading its
  \<open>length\<close> gives). The environment maps each path to the outcome of fetching it.
\<close>

datatype products_field =
    Absent
  | NullField
  | ArrayField "product list"
  | OtherField length_test

datatype json_doc =
    DocArray "product list"
  | DocObject products_field
  | DocNull
  | DocPrimitive

datatype body = Unparsable | Parsed json_doc

datatype fetch_outcome = Rejected | Response nat body

type_synonym fetch_env = "string \<Rightarrow> fetch_outcome"

definition response_ok :: "nat \<Rightarrow> bool" where
  "response_ok status = (200 \<le> status \<and> status \<le> 299)"

text \<open>
  The body of the \<open>try\<close> block of \<open>loadProductsFromFile\<close>: \<open>fetch\<close>, the \<open>response.ok\<close>
  test, \<open>response.json()\<close> and the \<open>Array.isArray\<close> validation, each of which can throw.
\<close>

definition fetch_array :: "fetch_outcome \<Rightarrow> exn + product list" where
  "fetch_array outcome =
     (case outcome of
        Rejected \<Rightarrow> Inl NetworkError
      | Response status b \<Rightarrow>
          if \<not> response_ok status then Inl (HttpError status)
          else (case b of
                  Unparsable \<Rightarrow> Inl SyntaxError
                | Parsed d \<Rightarrow> (case d of DocArray ps \<Rightarrow> Inr ps | _ \<Rightarrow> Inl InvalidFormat)))"

text \<open>
  \<open>loadProductsFromFile\<close>: a cached path is answered without a fetch; otherwise the
  \<open>catch\<close> block turns every exception of the body into a logged error and the empty array.
\<close>

definition loadProductsFromFile ::
  "string \<Rightarrow> fetch_env \<Rightarrow> data_state \<Rightarrow> (exn + product list) \<times> data_state" where
  "loadProductsFromFile filePath env s =
     (case productsCache s filePath of
        Some ps \<Rightarrow> (Inr ps, s)
      | None \<Rightarrow>
          (case fetch_array (env filePath) of
             Inr ps \<Rightarrow>
               (Inr ps, (safeLog Info (''loaded from '' @ filePath) s)
                          \<lparr>productsCache := (productsCache s)(filePath \<mapsto> ps)\<rparr>)
           | Inl e \<Rightarrow> (Inr [], safeLog Error (''error loading '' @ filePath) s)))"

definition country_files :: "string list" where
  "country_files =
     [''product/serbia-products.json'', ''product/russia-products.json'',
      ''product/china-products.json'', ''product/czech-products.json'',
      ''product/georgia-products.json'', ''product/germany-products.json'']"

text \<open>
  \<open>Promise.allSettled\<close> over the six file loads, then the spread of every fulfilled value:
  a rejected load would contribute nothing. The loads are run in the order of the list
  once the fetches have settled; each reads and writes only the cache entry of its own path.
\<close>

fun load_files :: "string list \<Rightarrow> fetch_env \<Rightarrow> data_state \<Rightarrow> product list \<times> data_state" where
  "load_files [] env s = ([], s)"
| "load_files (f # fs) env s =
     (case loadProductsFromFile f env s of
        (r, s1) \<Rightarrow>
          (case load_files fs env s1 of
             (rest, s2) \<Rightarrow> ((case r of Inr ps \<Rightarrow> ps | Inl e \<Rightarrow> []) @ rest, s2)))"

text \<open>
  An \<open>async\<close> function runs synchronously up to its first \<open>await\<close>; other callers can run
  before its continuation does. \<open>loadAllProducts\<close> is therefore split: the prefix
  \<open>loadAllProducts_begin\<close> (cache, then the in-flight flag), the 100 ms poll of a caller
  that found a load in flight, and the continuation \<open>loadAllProducts_finish\<close> of the caller
  that started the fetches, run when they have settled.
\<close>

datatype loader_step = LDone "product list" | LFetching | LWaiting

definition loadAllProducts_begin :: "data_state \<Rightarrow> loader_step \<times> data_state" where
  "loadAllProducts_begin s =
     (case productsCache s ''all_products'' of
        Some ps \<Rightarrow> (LDone ps, safeLog Info ''products from cache'' s)
      | None \<Rightarrow>
          if loaderIsLoading s then (LWaiting, safeLog Info ''products already loading'' s)
          else (LFetching, safeLog Info ''start loading all products'' (s\<lparr>loaderIsLoading := True\<rparr>)))"

definition loadAllProducts_poll :: "data_state \<Rightarrow> loader_step \<times> data_state" where
  "loadAllProducts_poll s =
     (if loaderIsLoading s then (LWaiting, s)
      else (LDone (case productsCache s ''all_products'' of Some ps \<Rightarrow> ps | None \<Rightarrow> []), s))"

definition loadAllProducts_finish :: "fetch_env \<Rightarrow> data_state \<Rightarrow> product list \<times> data_state" where
  "loadAllProducts_finish env s =
     (case load_files country_files env s of
        (allProducts, s1) \<Rightarrow>
          (allProducts,
           (safeLog Info ''per country counts'' (safeLog Info ''products loaded'' s1))
             \<lparr>productsCache := (productsCache s1)(''all_products'' \<mapsto> allProducts),
              loaderIsLoading := False\<rparr>))"

text \<open>
  A call of \<open>loadAllProducts\<close> with no other caller in between. \<open>None\<close>: the call found the
  in-flight flag set and keeps polling for as long as nobody lowers it.
\<close>

definition loadAllProducts :: "fetch_env \<Rightarrow> data_state \<Rightarrow> (exn + product list) option \<times> data_state" where
  "loadAllProducts env s =
     (case loadAllProducts_begin s of
        (LDone ps, s1) \<Rightarrow> (Some (Inr ps), s1)
      | (LFetching, s1) \<Rightarrow> (case loadAllProducts_finish env s1 of (ps, s2) \<Rightarrow> (Some (Inr ps), s2))
      | (LWaiting, s1) \<Rightarrow> (None, s1))"

text \<open>
  \<open>loadProducts\<close>, split in the same way. The prefix returns at once when a load is in
  flight or \<open>products.length > 0\<close>; the test throws there when the variable is
  \<open>undefined\<close> or \<open>null\<close>, or holds a value whose \<open>length\<close> cannot be compared. Otherwise it raises the flag and awaits the loader (whose own
  prefix has run) or the fallback fetch.
\<close>

datatype call_step = Returned "exn + jsval" | AwaitLoader loader_step | AwaitFetch

text \<open>The start of the \<open>try\<close> block, up to the \<open>await\<close>.\<close>

definition loadProducts_start :: "data_state \<Rightarrow> call_step \<times> data_state" where
  "loadProducts_start s =
     (let s1 = safeLog Info ''start loading products'' (s\<lparr>dataIsLoading := True\<rparr>) in
      if hasProductLoader s1 then
        (case loadAllProducts_begin (safeLog Info ''using ProductLoader'' s1) of
           (st, s2) \<Rightarrow> (AwaitLoader st, s2))
      else (AwaitFetch, safeLog Info ''fallback to product.json'' s1))"

definition loadProducts_begin :: "data_state \<Rightarrow> call_step \<times> data_state" where
  "loadProducts_begin s =
     (if dataIsLoading s then (Returned (Inr (products_value s)), safeLog Info ''data already loading'' s)
      else
        (case products s of
           Unset \<Rightarrow> (Returned (Inl TypeError), s)
         | NullValue \<Rightarrow> (Returned (Inl TypeError), s)
         | Loaded ps \<Rightarrow>
             if length ps > 0 then (Returned (Inr (ProductList ps)), safeLog Info ''data already loaded'' s)
             else loadProducts_start s
         | Foreign LengthPositive \<Rightarrow>
             (Returned (Inr OtherValue), safeLog Info ''data already loaded'' s)
         | Foreign LengthNotPositive \<Rightarrow> loadProducts_start s
         | Foreign LengthThrows \<Rightarrow> (Returned (Inl TypeError), s)))"

text \<open>
  The continuation after the \<open>await\<close>, given what was awaited: the array the loader
  resolved with, or the outcome of fetching \<open>product/product.json\<close>. The fallback assigns
  \<open>data.products\<close> to \<open>products\<close> as it is. Reading \<open>.products\<close> of \<open>null\<close> throws; the
  success log line prints \<open>products.length\<close>, which throws when the property was absent or
  \<open>null\<close> or has a \<open>length\<close> that cannot be converted; any other value, array or not, is
  logged, followed by \<open>clearCaches()\<close>, and returned. The \<open>catch\<close> block logs and returns the empty array, \<open>finally\<close> lowers the flag.
\<close>

datatype awaited = LoaderResolved "product list" | FetchSettled fetch_outcome

definition loaded_ok :: "products_var \<Rightarrow> data_state \<Rightarrow> (exn + jsval) \<times> data_state" where
  "loaded_ok v s =
     (let s1 = call_clearCaches (safeLog Info ''products loaded'' (s\<lparr>products := v\<rparr>))
      in (Inr (products_value s1), s1))"

definition loadProducts_try :: "awaited \<Rightarrow> data_state \<Rightarrow> (exn + jsval) \<times> data_state" where
  "loadProducts_try a s =
     (case a of
        LoaderResolved ps \<Rightarrow> loaded_ok (Loaded ps) s
      | FetchSettled Rejected \<Rightarrow> (Inl NetworkError, s)
      | FetchSettled (Response status b) \<Rightarrow>
          if \<not> response_ok status then (Inl (HttpError status), s)
          else (case b of
                  Unparsable \<Rightarrow> (Inl SyntaxError, s)
                | Parsed d \<Rightarrow>
                    (case d of
                       DocNull \<Rightarrow> (Inl TypeError, s)
                     | DocArray xs \<Rightarrow> (Inl TypeError, s\<lparr>products := Unset\<rparr>)
                     | DocPrimitive \<Rightarrow> (Inl TypeError, s\<lparr>products := Unset\<rparr>)
                     | DocObject Absent \<Rightarrow> (Inl TypeError, s\<lparr>products := Unset\<rparr>)
                     | DocObject NullField \<Rightarrow> (Inl TypeError, s\<lparr>products := NullValue\<rparr>)
                     | DocObject (ArrayField ps) \<Rightarrow> loaded_ok (Loaded ps) s
                     | DocObject (OtherField LengthThrows) \<Rightarrow>
                         (Inl TypeError, s\<lparr>products := Foreign LengthThrows\<rparr>)
                     | DocObject (OtherField l) \<Rightarrow> loaded_ok (Foreign l) s)))"

definition loadProducts_finish :: "awaited \<Rightarrow> data_state \<Rightarrow> (exn + jsval) \<times> data_state" where
  "loadProducts_finish a s =
     (case loadProducts_try a s of
        (Inr v, s1) \<Rightarrow> (Inr v, s1\<lparr>dataIsLoading := False\<rparr>)
      | (Inl e, s1) \<Rightarrow>
          (Inr (ProductList []), (safeLog Error ''error loading products'' s1)\<lparr>dataIsLoading := False\<rparr>))"

text \<open>A call of \<open>loadProducts\<close> with no other caller in between.\<close>

definition loadProducts :: "fetch_env \<Rightarrow> data_state \<Rightarrow> (exn + jsval) option \<times> data_state" where
  "loadProducts env s =
     (case loadProducts_begin s of
        (Returned r, s1) \<Rightarrow> (Some r, s1)
      | (AwaitFetch, s1) \<Rightarrow>
          (case loadProducts_finish (FetchSettled (env ''product/product.json'')) s1 of
             (r, s2) \<Rightarrow> (Some r, s2))
      | (AwaitLoader LWaiting, s1) \<Rightarrow> (None, s1)
      | (AwaitLoader (LDone ps), s1) \<Rightarrow>
          (case loadProducts_finish (LoaderResolved ps) s1 of (r, s2) \<Rightarrow> (Some r, s2))
      | (AwaitLoader LFetching, s1) \<Rightarrow>
          (case loadAllProducts_finish env s1 of
             (ps, s2) \<Rightarrow> (case loadProducts_finish (LoaderResolved ps) s2 of (r, s3) \<Rightarrow> (Some r, s3))))"

definition refreshProducts :: "fetch_env \<Rightarrow> data_state \<Rightarrow> (exn + jsval) option \<times> data_state" where
  "refreshProducts env s = loadProducts env ((call_clearCaches s)\<lparr>products := Loaded []\<rparr>)"

text \<open>The failing outcomes of a fetch that expects an array of products.\<close>

definition failing :: "fetch_outcome \<Rightarrow> bool" where
  "failing outcome =
     (case outcome of
        Rejected \<Rightarrow> True
      | Response status b \<Rightarrow>
          if response_ok status
          then (case b of Unparsable \<Rightarrow> True | Parsed d \<Rightarrow> (case d of DocArray ps \<Rightarrow> False | _ \<Rightarrow> True))
          else True)"

text \<open>
  The failing outcomes of the fallback fetch that the \<open>try\<close> block turns into an exception:
  a rejected fetch, a status that is not OK, a body that does not parse, and a parsed
  document whose \<open>products\<close> has no \<open>length\<close> to print (\<open>null\<close>, an array, a
  primitive, an object where the property is absent, \<open>null\<close>, or a value whose \<open>length\<close>
  cannot be converted to a primitive).
\<close>

definition failing_fallback :: "fetch_outcome \<Rightarrow> bool" where
  "failing_fallback outcome =
     (case outcome of
        Rejected \<Rightarrow> True
      | Response status b \<Rightarrow>
          if response_ok status
          then (case b of
                  Unparsable \<Rightarrow> True
                | Parsed d \<Rightarrow>
                    (case d of
                       DocObject f \<Rightarrow>
                         (case f of
                            Absent \<Rightarrow> True
                          | NullField \<Rightarrow> True
                          | ArrayField ps \<Rightarrow> False
                          | OtherField l \<Rightarrow> l = LengthThrows)
                     | _ \<Rightarrow> True))
          else True)"

definition error_logged :: "data_state \<Rightarrow> bool" where
  "error_logged s = list_ex (\<lambda>entry. fst entry = Error) (logged s)"

text \<open>What one file contributes to the merged list: its cached array, else the fetched one, else nothing.\<close>

definition file_result :: "fetch_env \<Rightarrow> data_state \<Rightarrow> string \<Rightarrow> product list" where
  "file_result env s f =
     (case productsCache s f of
        Some ps \<Rightarrow> ps
      | None \<Rightarrow> (case fetch_array (env f) of Inr ps \<Rightarrow> ps | Inl e \<Rightarrow> []))"

section \<open>Modal gallery and image rotation (js/ui.js)\<close>

text \<open>
  The page is taken to hold the elements of its DOM contract (\<open>#productModal\<close>,
  \<open>#modalMainImage\<close>, \<open>#thumbnailImages\<close>, \<open>#imageRotationProgress\<close>, \<open>#progressBar\<close>,
  \<open>#modalProductName\<close>), so the fields of \<open>DOMCache\<close> are set and the guards on them pass.
  Of each element the state keeps the properties the module reads or writes. Image
  sources are compared as the strings the product data holds. Log lines are left out.

  Time is a clock in milliseconds and a table of pending timers. A timer carries the
  closure \<open>setTimeout\<close> or \<open>setInterval\<close> was given; the variables shared by the two
  closures of one \<open>startModalImageRotationWithIndex\<close> call are a session.
\<close>

record thumbnail =
  t_src :: string
  t_active :: bool

datatype callback =
    CbOpenDelayed "string list"
  | CbRotate nat
  | CbProgress nat
  | CbRestoreTransition string
  | CbClearTransition
  | CbSwitchRestart "string list" int
  | CbTestStop nat nat

record timer =
  tid :: nat
  due :: nat
  period :: "nat option"
  cb :: callback

text \<open>
  \<open>currentImageIndex\<close> is a number: \<open>None\<close> stands for \<open>NaN\<close> (a remainder by the length
  of an empty array). \<open>progress\<close> is kept as an exact rational, \<open>None\<close> standing for
  \<open>Infinity\<close> (the step \<open>100 / (interval / 50)\<close> at interval 0).
\<close>

record session =
  s_images :: "string list"
  currentImageIndex :: "int option"
  progress :: "rat option"

text \<open>The variables the hover handlers of one \<open>openProductModal\<close> call close over.\<close>

record listener =
  l_images :: "string list"
  l_intervalId :: nat
  l_progressInterval :: nat

record ui_state =
  rot_enabled :: bool
  rot_interval :: nat
  onlyInModal :: bool
  rot_modal :: "nat option"
  rot_progress :: "nat option"
  modal_display :: string
  mainImage_src :: string
  thumbnails :: "thumbnail list"
  modalProductName :: string
  container_show :: bool
  bar_width :: rat
  bar_transition :: string
  bar_animate :: bool
  app_products :: "product list"
  sessions :: "session list"
  listeners :: "listener list"
  timers :: "timer list"
  nextTimerId :: nat
  now :: nat

subsection \<open>Timers\<close>

definition set_timer :: "callback \<Rightarrow> nat \<Rightarrow> nat option \<Rightarrow> ui_state \<Rightarrow> nat \<times> ui_state" where
  "set_timer c delay p s =
     (nextTimerId s,
      s\<lparr>timers := timers s @ [\<lparr>tid = nextTimerId s, due = now s + delay, period = p, cb = c\<rparr>],
        nextTimerId := nextTimerId s + 1\<rparr>)"

definition setTimeout :: "callback \<Rightarrow> nat \<Rightarrow> ui_state \<Rightarrow> nat \<times> ui_state" where
  "setTimeout c delay s = set_timer c delay None s"

definition setInterval :: "callback \<Rightarrow> nat \<Rightarrow> ui_state \<Rightarrow> nat \<times> ui_state" where
  "setInterval c delay s = set_timer c delay (Some delay) s"

definition clearInterval :: "nat \<Rightarrow> ui_state \<Rightarrow> ui_state" where
  "clearInterval i s = s\<lparr>timers := filter (\<lambda>t. tid t \<noteq> i) (timers s)\<rparr>"

text \<open>\<open>if (handle) clearInterval(handle)\<close>: \<open>null\<close> and 0 are falsy.\<close>

definition clear_if_set :: "nat option \<Rightarrow> ui_state \<Rightarrow> ui_state" where
  "clear_if_set h s = (case h of None \<Rightarrow> s | Some i \<Rightarrow> if i = 0 then s else clearInterval i s)"

subsection \<open>Starting a rotation\<close>

definition forceResetProgressBar :: "ui_state \<Rightarrow> ui_state" where
  "forceResetProgressBar s =
     snd (setTimeout (CbRestoreTransition (bar_transition s)) 150
            (s\<lparr>bar_transition := ''width 0.1s ease-out'', bar_width := 0, bar_animate := False\<rparr>))"

definition startModalImageRotationWithIndex ::
  "string list \<Rightarrow> int \<Rightarrow> ui_state \<Rightarrow> (nat \<times> nat) \<times> ui_state" where
  "startModalImageRotationWithIndex images startIndex s =
     (let s1 = clear_if_set (rot_progress s) (clear_if_set (rot_modal s) s);
          s2 = forceResetProgressBar s1;
          sid = length (sessions s2);
          s3 = s2\<lparr>sessions := sessions s2 @
                  [\<lparr>s_images = images, currentImageIndex = Some startIndex, progress = Some 0\<rparr>]\<rparr>;
          r1 = setInterval (CbRotate sid) (rot_interval s3) s3;
          r2 = setInterval (CbProgress sid) 50 (snd r1)
      in ((fst r1, fst r2), (snd r2)\<lparr>rot_modal := Some (fst r1), rot_progress := Some (fst r2)\<rparr>))"

definition startModalImageRotation :: "string list \<Rightarrow> ui_state \<Rightarrow> (nat \<times> nat) \<times> ui_state" where
  "startModalImageRotation images s = startModalImageRotationWithIndex images 0 s"

subsection \<open>The timer callbacks\<close>

text \<open>The remainder operator of the host language takes the sign of the dividend.\<close>

definition js_rem :: "int \<Rightarrow> int \<Rightarrow> int" where
  "js_rem a n = (if 0 \<le> a then a mod n else - ((- a) mod n))"

definition next_index :: "int option \<Rightarrow> nat \<Rightarrow> int option" where
  "next_index idx n =
     (case idx of None \<Rightarrow> None | Some i \<Rightarrow> if n = 0 then None else Some (js_rem (i + 1) (int n)))"

text \<open>\<open>images[i]\<close> assigned to \<open>src\<close>: outside the array the value is \<open>undefined\<close>.\<close>

definition image_at :: "string list \<Rightarrow> int option \<Rightarrow> string" where
  "image_at images idx =
     (case idx of
        None \<Rightarrow> ''undefined''
      | Some i \<Rightarrow> if 0 \<le> i \<and> i < int (length images) then images ! nat i else ''undefined'')"

definition updateActiveThumbnail :: "int option \<Rightarrow> thumbnail list \<Rightarrow> thumbnail list" where
  "updateActiveThumbnail activeIndex ths =
     map (\<lambda>(k, th). th\<lparr>t_active := (Some (int k) = activeIndex)\<rparr>) (enumerate 0 ths)"

definition rotateImages :: "nat \<Rightarrow> ui_state \<Rightarrow> ui_state" where
  "rotateImages sid s =
     (if sid < length (sessions s) then
        (let se = sessions s ! sid;
             idx = next_index (currentImageIndex se) (length (s_images se))
         in snd (setTimeout CbClearTransition 150
              (s\<lparr>sessions := (sessions s)[sid := se\<lparr>currentImageIndex := idx, progress := Some 0\<rparr>],
                 mainImage_src := image_at (s_images se) idx,
                 thumbnails := updateActiveThumbnail idx (thumbnails s),
                 bar_transition := ''width 0.1s ease-out'',
                 bar_width := 0\<rparr>)))
      else s)"

definition progress_step :: "nat \<Rightarrow> rat option" where
  "progress_step i = (if i = 0 then None else Some (100 / (of_nat i / 50)))"

definition add_progress :: "rat option \<Rightarrow> rat option \<Rightarrow> rat option" where
  "add_progress p q = (case p of None \<Rightarrow> None | Some a \<Rightarrow> (case q of None \<Rightarrow> None | Some b \<Rightarrow> Some (a + b)))"

definition updateProgress :: "nat \<Rightarrow> ui_state \<Rightarrow> ui_state" where
  "updateProgress sid s =
     (if sid < length (sessions s) then
        (let se = sessions s ! sid;
             p = add_progress (progress se) (progress_step (rot_interval s));
             s1 = s\<lparr>sessions := (sessions s)[sid := se\<lparr>progress := p\<rparr>]\<rparr>
         in case p of
              None \<Rightarrow> s1
            | Some v \<Rightarrow> if v \<le> 100 then s1\<lparr>bar_transition := ''width 0.05s linear'', bar_width := v\<rparr> else s1)
      else s)"

text \<open>
  The delayed part of \<open>openProductModal\<close>: unless the modal has been closed meanwhile it
  starts the rotation and registers the two hover handlers.
\<close>

definition open_delayed :: "string list \<Rightarrow> ui_state \<Rightarrow> ui_state" where
  "open_delayed images s =
     (if modal_display s \<noteq> ''block'' then s
      else (let r = startModalImageRotation images s
            in (snd r)\<lparr>listeners := listeners (snd r) @
                  [\<lparr>l_images = images, l_intervalId = fst (fst r), l_progressInterval = snd (fst r)\<rparr>]\<rparr>))"

text \<open>The delayed part of \<open>switchMainImage\<close>: it starts the rotation with no further test.\<close>

definition switch_restart :: "string list \<Rightarrow> int \<Rightarrow> ui_state \<Rightarrow> ui_state" where
  "switch_restart images currentIndex s =
     (let r = startModalImageRotationWithIndex images currentIndex s
      in (snd r)\<lparr>rot_modal := Some (fst (fst r)), rot_progress := Some (snd (fst r))\<rparr>)"

text \<open>The timeout of \<open>testImageRotation\<close>: it clears the two handles it was given.\<close>

definition test_stop :: "nat \<Rightarrow> nat \<Rightarrow> ui_state \<Rightarrow> ui_state" where
  "test_stop i p s = clear_if_set (Some p) (clear_if_set (Some i) s)"

fun run_callback :: "callback \<Rightarrow> ui_state \<Rightarrow> ui_state" where
  "run_callback (CbOpenDelayed images) s = open_delayed images s"
| "run_callback (CbRotate sid) s = rotateImages sid s"
| "run_callback (CbProgress sid) s = updateProgress sid s"
| "run_callback (CbRestoreTransition orig) s = s\<lparr>bar_transition := orig\<rparr>"
| "run_callback CbClearTransition s = s\<lparr>bar_transition := []\<rparr>"
| "run_callback (CbSwitchRestart images i) s = switch_restart images i s"
| "run_callback (CbTestStop i p) s = test_stop i p s"

subsection \<open>The event loop\<close>

text \<open>
  The pending timer that fires next: the earliest due, the one created first among equals.
\<close>

definition before :: "timer \<Rightarrow> timer \<Rightarrow> bool" where
  "before a b = (due a < due b \<or> (due a = due b \<and> tid a < tid b))"

fun earliest :: "timer list \<Rightarrow> timer option" where
  "earliest [] = None"
| "earliest (t # ts) =
     (case earliest ts of None \<Rightarrow> Some t | Some u \<Rightarrow> if before u t then Some u else Some t)"

text \<open>A timeout leaves the table when it fires; an interval is due again one period later.\<close>

definition reschedule :: "timer \<Rightarrow> timer list \<Rightarrow> timer list" where
  "reschedule t ts =
     (case period t of
        None \<Rightarrow> filter (\<lambda>u. tid u \<noteq> tid t) ts
      | Some p \<Rightarrow> map (\<lambda>u. if tid u = tid t then u\<lparr>due := due u + p\<rparr> else u) ts)"

definition fire :: "timer \<Rightarrow> ui_state \<Rightarrow> ui_state" where
  "fire t s = run_callback (cb t) (s\<lparr>now := max (now s) (due t), timers := reschedule t (timers s)\<rparr>)"

definition fire_next :: "ui_state \<Rightarrow> ui_state" where
  "fire_next s = (case earliest (timers s) of None \<Rightarrow> s | Some t \<Rightarrow> fire t s)"

text \<open>
  Letting \<open>d\<close> milliseconds pass: every timer due by then fires, in order, and the clock
  ends at the deadline. An interval of period 0 would fire for ever without letting time
  pass, so the run has fuel and \<open>None\<close> says that it ran out.
\<close>

fun run_due :: "nat \<Rightarrow> nat \<Rightarrow> ui_state \<Rightarrow> ui_state option" where
  "run_due 0 deadline s = None"
| "run_due (Suc fuel) deadline s =
     (case earliest (timers s) of
        None \<Rightarrow> Some (s\<lparr>now := deadline\<rparr>)
      | Some t \<Rightarrow> if due t \<le> deadline then run_due fuel deadline (fire t s) else Some (s\<lparr>now := deadline\<rparr>))"

text \<open>Time passing with no timer firing: the clock moves on, at most to the next due time.\<close>

definition time_passes :: "nat \<Rightarrow> ui_state \<Rightarrow> ui_state" where
  "time_passes d s =
     s\<lparr>now := (case earliest (timers s) of
                  None \<Rightarrow> now s + d
                | Some t \<Rightarrow> min (now s + d) (max (now s) (due t)))\<rparr>"

definition advance_time :: "nat \<Rightarrow> nat \<Rightarrow> ui_state \<Rightarrow> ui_state option" where
  "advance_time fuel d s = run_due fuel (now s + d) s"

subsection \<open>Operations of the module\<close>

definition fillModalContent :: "product \<Rightarrow> ui_state \<Rightarrow> ui_state" where
  "fillModalContent product s =
     s\<lparr>modalProductName := p_name product, mainImage_src := image_at (p_images product) (Some 0)\<rparr>"

definition createImageGallery :: "product \<Rightarrow> ui_state \<Rightarrow> ui_state" where
  "createImageGallery product s =
     (if p_images product = [] then s
      else s\<lparr>mainImage_src := image_at (p_images product) (Some 0),
             thumbnails := map (\<lambda>(k, image). \<lparr>t_src = image, t_active = (k = 0)\<rparr>)
                             (enumerate 0 (p_images product))\<rparr>)"

definition showModal :: "ui_state \<Rightarrow> ui_state" where
  "showModal s = s\<lparr>modal_display := ''block''\<rparr>"

definition openProductModal :: "product \<Rightarrow> ui_state \<Rightarrow> ui_state" where
  "openProductModal product s =
     (let s1 = showModal (createImageGallery product (fillModalContent product s))
      in if rot_enabled s1 \<and> length (p_images product) > 1
         then snd (setTimeout (CbOpenDelayed (p_images product)) 100
                (s1\<lparr>container_show := True, bar_animate := True, bar_width := 0\<rparr>))
         else s1)"

definition pauseOnHover :: "listener \<Rightarrow> ui_state \<Rightarrow> ui_state" where
  "pauseOnHover l s =
     (if l_intervalId l = 0 then s
      else (clearInterval (l_progressInterval l) (clearInterval (l_intervalId l) s))\<lparr>bar_animate := False\<rparr>)"

definition mouseenter :: "ui_state \<Rightarrow> ui_state" where
  "mouseenter s = foldl (\<lambda>acc l. pauseOnHover l acc) s (listeners s)"

text \<open>
  \<open>resumeOnLeave\<close> of the \<open>k\<close>-th registered handler pair: it starts the rotation over the
  images it closed over and keeps the new handles for its \<open>pauseOnHover\<close>.
\<close>

definition resumeOnLeave :: "nat \<Rightarrow> ui_state \<Rightarrow> ui_state" where
  "resumeOnLeave k s =
     (if rot_enabled s \<and> k < length (listeners s) then
        (let l = listeners s ! k;
             r = startModalImageRotation (l_images l) s
         in (snd r)\<lparr>listeners := (listeners (snd r))
                [k := l\<lparr>l_intervalId := fst (fst r), l_progressInterval := snd (fst r)\<rparr>]\<rparr>)
      else s)"

definition mouseleave :: "ui_state \<Rightarrow> ui_state" where
  "mouseleave s = foldl (\<lambda>acc k. resumeOnLeave k acc) s [0..<length (listeners s)]"

text \<open>\<open>indexOf\<close>: the first position of the value, or \<open>-1\<close>.\<close>

fun indexOf :: "string list \<Rightarrow> string \<Rightarrow> int" where
  "indexOf [] x = - 1"
| "indexOf (y # ys) x = (if y = x then 0 else (let r = indexOf ys x in if r < 0 then - 1 else r + 1))"

text \<open>
  \<open>switchMainImage(imageSrc, clickedThumbnail)\<close>, the thumbnail given by its position.
  The restart is delayed by 150 ms and guarded only by the length of the image list of
  the product found under the name the modal shows.
\<close>

definition switchMainImage :: "string \<Rightarrow> nat \<Rightarrow> ui_state \<Rightarrow> ui_state" where
  "switchMainImage imageSrc k s =
     (let s1 = s\<lparr>mainImage_src := imageSrc,
                 thumbnails := map (\<lambda>(j, th). th\<lparr>t_active := (j = k)\<rparr>) (enumerate 0 (thumbnails s))\<rparr>
      in if rot_enabled s1 then
           (let s2 = forceResetProgressBar (clear_if_set (rot_progress s1) (clear_if_set (rot_modal s1) s1))
            in case find (\<lambda>p. p_name p = modalProductName s2) (app_products s2) of
                 None \<Rightarrow> s2
               | Some currentProduct \<Rightarrow>
                   if length (p_images currentProduct) > 1
                   then snd (setTimeout (CbSwitchRestart (p_images currentProduct)
                                           (indexOf (p_images currentProduct) imageSrc)) 150 s2)
                   else s2)
         else s1)"

text \<open>A click on the \<open>k\<close>-th thumbnail of the gallery calls the handler bound to its image.\<close>

definition click_thumbnail :: "nat \<Rightarrow> ui_state \<Rightarrow> ui_state" where
  "click_thumbnail k s =
     (if k < length (thumbnails s) then switchMainImage (t_src (thumbnails s ! k)) k s else s)"

definition stopAllImageRotation :: "ui_state \<Rightarrow> ui_state" where
  "stopAllImageRotation s =
     (let s1 = (case rot_modal s of
                  None \<Rightarrow> s
                | Some i \<Rightarrow> if i = 0 then s else (clearInterval i s)\<lparr>rot_modal := None\<rparr>)
      in case rot_progress s1 of
           None \<Rightarrow> s1
         | Some p \<Rightarrow> if p = 0 then s1 else (clearInterval p s1)\<lparr>rot_progress := None\<rparr>)"

definition closeProductModal :: "ui_state \<Rightarrow> ui_state" where
  "closeProductModal s =
     (stopAllImageRotation (s\<lparr>modal_display := ''none''\<rparr>))
       \<lparr>container_show := False, bar_animate := False, bar_width := 0\<rparr>"

definition restartImageRotation :: "ui_state \<Rightarrow> ui_state" where
  "restartImageRotation s =
     (if \<not> rot_enabled s then s
      else if modal_display s = ''block'' \<and> mainImage_src s \<noteq> [] then
        (case find (\<lambda>th. t_src th = mainImage_src s) (thumbnails s) of
           None \<Rightarrow> s
         | Some th \<Rightarrow> snd (startModalImageRotation (map t_src (thumbnails s)) s))
      else s)"

definition toggleImageRotation :: "bool \<Rightarrow> ui_state \<Rightarrow> ui_state" where
  "toggleImageRotation b s =
     (if b then restartImageRotation (s\<lparr>rot_enabled := True\<rparr>)
      else stopAllImageRotation (s\<lparr>rot_enabled := False\<rparr>))"

definition setImageRotationInterval :: "nat \<Rightarrow> ui_state \<Rightarrow> ui_state" where
  "setImageRotationInterval i s =
     (let s1 = s\<lparr>rot_interval := i\<rparr> in if rot_enabled s1 then restartImageRotation s1 else s1)"

definition setImageRotationMode :: "bool \<Rightarrow> ui_state \<Rightarrow> ui_state" where
  "setImageRotationMode b s = s\<lparr>onlyInModal := b\<rparr>"

definition forceStartImageRotation :: "ui_state \<Rightarrow> ui_state" where
  "forceStartImageRotation s =
     restartImageRotation (if rot_enabled s then s else s\<lparr>rot_enabled := True\<rparr>)"

definition testImageRotation :: "ui_state \<Rightarrow> ui_state" where
  "testImageRotation s =
     (if length (thumbnails s) > 1 then
        (let r = startModalImageRotation (map t_src (thumbnails s)) s
         in snd (setTimeout (CbTestStop (fst (fst r)) (snd (fst r))) 5000 (snd r)))
      else s)"

subsection \<open>Runs of the page\<close>

datatype ui_event =
    OpenProductModal product
  | CloseProductModal
  | MouseEnter
  | MouseLeave
  | ClickThumbnail nat
  | ToggleImageRotation bool
  | SetImageRotationInterval nat
  | SetImageRotationMode bool
  | ForceStartImageRotation
  | RestartImageRotation
  | StopAllImageRotation
  | TestImageRotation
  | TimerFires
  | TimePasses nat

fun apply_event :: "ui_event \<Rightarrow> ui_state \<Rightarrow> ui_state" where
  "apply_event (OpenProductModal p) s = openProductModal p s"
| "apply_event CloseProductModal s = closeProductModal s"
| "apply_event MouseEnter s = mouseenter s"
| "apply_event MouseLeave s = mouseleave s"
| "apply_event (ClickThumbnail k) s = click_thumbnail k s"
| "apply_event (ToggleImageRotation b) s = toggleImageRotation b s"
| "apply_event (SetImageRotationInterval i) s = setImageRotationInterval i s"
| "apply_event (SetImageRotationMode b) s = setImageRotationMode b s"
| "apply_event ForceStartImageRotation s = forceStartImageRotation s"
| "apply_event RestartImageRotation s = restartImageRotation s"
| "apply_event StopAllImageRotation s = stopAllImageRotation s"
| "apply_event TestImageRotation s = testImageRotation s"
| "apply_event TimerFires s = fire_next s"
| "apply_event (TimePasses d) s = time_passes d s"

text \<open>The state of the module when its script has run, over the products of the application.\<close>

definition initial_ui :: "product list \<Rightarrow> ui_state" where
  "initial_ui ps =
     \<lparr>rot_enabled = True, rot_interval = 3000, onlyInModal = True,
      rot_modal = None, rot_progress = None,
      modal_display = [], mainImage_src = [], thumbnails = [], modalProductName = [],
      container_show = False, bar_width = 0, bar_transition = [], bar_animate = False,
      app_products = ps, sessions = [], listeners = [], timers = [], nextTimerId = 1, now = 0\<rparr>"

text \<open>
  The states the page can be in: any sequence of calls of the module's operations, user
  gestures and timer firings from the initial state.
\<close>

inductive reachable :: "ui_state \<Rightarrow> bool" where
  reachable_init: "reachable (initial_ui ps)"
| reachable_step: "reachable s \<Longrightarrow> reachable (apply_event e s)"

fun run_events :: "ui_event list \<Rightarrow> ui_state \<Rightarrow> ui_state" where
  "run_events [] s = s"
| "run_events (e # es) s = run_events es (apply_event e s)"

text \<open>The live advance timers and the live progress timers.\<close>

definition is_advance :: "timer \<Rightarrow> bool" where
  "is_advance t = (case cb t of CbRotate sid \<Rightarrow> True | _ \<Rightarrow> False)"

definition is_progress :: "timer \<Rightarrow> bool" where
  "is_progress t = (case cb t of CbProgress sid \<Rightarrow> True | _ \<Rightarrow> False)"

definition advance_timers :: "ui_state \<Rightarrow> timer list" where
  "advance_timers s = filter is_advance (timers s)"

definition progress_timers :: "ui_state \<Rightarrow> timer list" where
  "progress_timers s = filter is_progress (timers s)"

text \<open>
  What the stored handles are meant to keep: timer identifiers are positive, below the
  counter and pairwise different; a live advance timer is the one \<open>currentRotationIntervals.modal\<close>
  names and a live progress timer the one \<open>currentRotationIntervals.progress\<close> names.
\<close>

definition handles_inv :: "ui_state \<Rightarrow> bool" where
  "handles_inv s =
     (0 < nextTimerId s \<and>
      distinct (map tid (timers s)) \<and>
      list_all (\<lambda>t. 0 < tid t \<and> tid t < nextTimerId s \<and>
                    (is_advance t \<longrightarrow> rot_modal s = Some (tid t)) \<and>
                    (is_progress t \<longrightarrow> rot_progress s = Some (tid t))) (timers s))"

text \<open>
  The state in which \<open>startModalImageRotationWithIndex\<close> arms its timers: the stored
  handles cleared and the progress bar reset.
\<close>

definition pre_start :: "ui_state \<Rightarrow> ui_state" where
  "pre_start s = forceResetProgressBar (clear_if_set (rot_progress s) (clear_if_set (rot_modal s) s))"

text \<open>
  Callbacks that touch neither the main image, nor the thumbnails, nor the index of a
  session, nor the timer table: progress ticks and the restoring of the bar's transition.
\<close>

definition harmless :: "callback \<Rightarrow> bool" where
  "harmless c =
     (case c of CbProgress sid \<Rightarrow> True | CbRestoreTransition x \<Rightarrow> True | CbClearTransition \<Rightarrow> True
      | _ \<Rightarrow> False)"

text \<open>
  A state is calm around the pending timer \<open>a\<close>: \<open>a\<close> is not overdue, no other timer has
  its identifier, and every other timer is harmless and, if periodic, of positive period.
\<close>

definition calm :: "timer \<Rightarrow> ui_state \<Rightarrow> bool" where
  "calm a s =
     (a \<in> set (timers s) \<and> now s \<le> due a \<and>
      list_all (\<lambda>t. if tid t = tid a then t = a else harmless (cb t) \<and> period t \<noteq> Some 0) (timers s))"

text \<open>A bound on the firings that come before \<open>a\<close> fires.\<close>

definition slack_of :: "timer \<Rightarrow> timer \<Rightarrow> nat" where
  "slack_of a t =
     (if tid t \<noteq> tid a \<and> before t a
      then (case period t of None \<Rightarrow> 1 | Some p \<Rightarrow> due a + 1 - due t)
      else 0)"

definition slack :: "timer \<Rightarrow> ui_state \<Rightarrow> nat" where
  "slack a s = sum_list (map (slack_of a) (timers s))"

text \<open>What the gallery shows, and where each session stands.\<close>

definition view :: "ui_state \<Rightarrow> string \<times> thumbnail list \<times> (string list \<times> int option) list" where
  "view s = (mainImage_src s, thumbnails s, map (\<lambda>se. (s_images se, currentImageIndex se)) (sessions s))"

text \<open>
  A state in which a rotation can be started undisturbed: every pending timer is one of
  the two stored handles (which the start clears) or harmless.
\<close>

definition quiet :: "ui_state \<Rightarrow> bool" where
  "quiet s =
     list_all (\<lambda>t. tid t < nextTimerId s \<and>
                   ((0 < tid t \<and> (rot_modal s = Some (tid t) \<or> rot_progress s = Some (tid t))) \<or>
                    (harmless (cb t) \<and> period t \<noteq> Some 0))) (timers s)"

text \<open>The advance timer that a start in the state \<open>s\<close> arms.\<close>

definition advance_timer :: "ui_state \<Rightarrow> timer" where
  "advance_timer s =
     \<lparr>tid = nextTimerId s + 1, due = now s + rot_interval s, period = Some (rot_interval s),
      cb = CbRotate (length (sessions s))\<rparr>"

definition fresh_store :: "product list \<Rightarrow> data_state" where
  "fresh_store ps =
     \<lparr>products = Loaded ps, filterCache = Map.empty, statsCache = False, dataIsLoading = False,
      productsCache = Map.empty, loaderIsLoading = False, hasProductLoader = True,
      eventsLoaded = True, logged = []\<rparr>"

definition serbia_product :: product where
  "serbia_product =
     \<lparr>p_id = 1, p_name = ''Rakija'', p_description = ''Plum brandy'', p_price = ''1200 RSD'',
      p_country = ''Serbia'', p_category = ''drinks'', p_images = [''img/rakija.jpg''],
      p_tags = [''serbia'']\<rparr>"

definition china_product :: product where
  "china_product =
     \<lparr>p_id = 2, p_name = ''Tea'', p_description = ''Green tea'', p_price = ''300'',
      p_country = ''China'', p_category = ''drinks'', p_images = [''img/tea1.jpg'', ''img/tea2.jpg'', ''img/tea3.jpg''],
      p_tags = [''china'']\<rparr>"


text \<open>A page load: no products yet, nothing cached, the loader script present.\<close>

definition initial_store :: data_state where
  "initial_store = fresh_store []"

text \<open>Only the Chinese file can be fetched; every other fetch is rejected.\<close>

definition only_china :: fetch_env where
  "only_china path =
     (if path = ''product/china-products.json'' then Response 200 (Parsed (DocArray [china_product]))
      else Rejected)"

definition all_rejected :: fetch_env where
  "all_rejected path = Rejected"

text \<open>The fallback document parses but has no \<open>products\<close> property.\<close>

definition empty_object :: fetch_env where
  "empty_object path = Response 200 (Parsed (DocObject Absent))"

text \<open>The fallback document is \<open>{"products": 5}\<close>.\<close>

definition number_for_products :: fetch_env where
  "number_for_products path = Response 200 (Parsed (DocObject (OtherField LengthNotPositive)))"

text \<open>The fallback document is \<open>{"products": {"length": {"toString": 5}}}\<close>.\<close>

definition unprintable_length :: fetch_env where
  "unprintable_length path = Response 200 (Parsed (DocObject (OtherField LengthThrows)))"

text \<open>
  Two calls of \<open>loadProducts\<close> in one turn of the event loop: the second starts before
  the fetches of the first have settled.
\<close>

definition first_call :: "call_step \<times> data_state" where
  "first_call = loadProducts_begin initial_store"

definition second_call :: "call_step \<times> data_state" where
  "second_call = loadProducts_begin (snd first_call)"

definition loader_settled :: "product list \<times> data_state" where
  "loader_settled = loadAllProducts_finish only_china (snd second_call)"

definition first_call_done :: "(exn + jsval) \<times> data_state" where
  "first_call_done = loadProducts_finish (LoaderResolved (fst loader_settled)) (snd loader_settled)"

text \<open>The store of a page without the loader script, so that \<open>loadProducts\<close> falls back.\<close>

definition fallback_store :: data_state where
  "fallback_store = initial_store\<lparr>hasProductLoader := False\<rparr>"

text \<open>The page with its two products, before any gesture.\<close>

definition page :: ui_state where
  "page = initial_ui [serbia_product, china_product]"

text \<open>The modal just shown for the product with three images, its gallery built.\<close>

definition gallery_shown :: ui_state where
  "gallery_shown = showModal (createImageGallery china_product (fillModalContent china_product page))"

text \<open>
  The modal opened for the product with three images; 100 ms later the rotation runs,
  and after one more interval the second image is shown.
\<close>

definition opened :: "ui_state option" where
  "opened = advance_time 10 100 (openProductModal china_product page)"

definition rotated_once :: "ui_state option" where
  "rotated_once = Option.bind opened (advance_time 100 3000)"

text \<open>The pointer enters the modal and leaves it again.\<close>

definition resumed :: "ui_state option" where
  "resumed = map_option (\<lambda>s. mouseleave (mouseenter s)) rotated_once"

definition resumed_later :: "ui_state option" where
  "resumed_later = Option.bind resumed (advance_time 100 3000)"

text \<open>
  With the rotation running the second thumbnail is clicked, and 50 ms later, before the
  delayed restart, the modal is closed.
\<close>

definition closed_after_click :: "ui_state option" where
  "closed_after_click =
     Option.bind opened
       (\<lambda>s1. map_option closeProductModal (advance_time 10 50 (click_thumbnail 1 s1)))"

definition closed_later :: "ui_state option" where
  "closed_later = Option.bind closed_after_click (advance_time 100 3200)"

text \<open>The modal opened for the product with a single image.\<close>

definition single_opened :: ui_state where
  "single_opened = openProductModal serbia_product page"

text \<open>The states these runs pass through, written out.\<close>

definition opened_state :: ui_state where
  "opened_state =
  \<lparr>rot_enabled = True, rot_interval = 3000, onlyInModal = True,
     rot_modal = Some 3, rot_progress = Some 4, modal_display = ''block'',
     mainImage_src = ''img/tea1.jpg'',
     thumbnails =
       [\<lparr>t_src = ''img/tea1.jpg'', t_active = True\<rparr>,
        \<lparr>t_src = ''img/tea2.jpg'', t_active = False\<rparr>,
        \<lparr>t_src = ''img/tea3.jpg'', t_active = False\<rparr>],
     modalProductName = ''Tea'', container_show = True, bar_width = 0,
     bar_transition = ''width 0.1s ease-out'', bar_animate = False,
     app_products =
       [\<lparr>p_id = 1, p_name = ''Rakija'', p_description = ''Plum brandy'',
           p_price = ''1200 RSD'', p_country = ''Serbia'',
           p_category = ''drinks'', p_images = [''img/rakija.jpg''],
           p_tags = [''serbia'']\<rparr>,
        \<lparr>p_id = 2, p_name = ''Tea'', p_description = ''Green tea'',
           p_price = ''300'', p_country = ''China'',
           p_category = ''drinks'',
           p_images =
             [''img/tea1.jpg'', ''img/tea2.jpg'', ''img/tea3.jpg''],
           p_tags = [''china'']\<rparr>],
     sessions =
       [\<lparr>s_images = [''img/tea1.jpg'', ''img/tea2.jpg'', ''img/tea3.jpg''],
           currentImageIndex = Some 0, progress = Some 0\<rparr>],
     listeners =
       [\<lparr>l_images = [''img/tea1.jpg'', ''img/tea2.jpg'', ''img/tea3.jpg''],
           l_intervalId = 3, l_progressInterval = 4\<rparr>],
     timers =
       [\<lparr>tid = 2, due = 250, period = None, cb = CbRestoreTransition []\<rparr>,
        \<lparr>tid = 3, due = 3100, period = Some 3000, cb = CbRotate 0\<rparr>,
        \<lparr>tid = 4, due = 150, period = Some 50, cb = CbProgress 0\<rparr>],
     nextTimerId = 5, now = 100\<rparr>"

definition rotated_state :: ui_state where
  "rotated_state =
  \<lparr>rot_enabled = True, rot_interval = 3000, onlyInModal = True,
     rot_modal = Some 3, rot_progress = Some 4, modal_display = ''block'',
     mainImage_src = ''img/tea2.jpg'',
     thumbnails =
       [\<lparr>t_src = ''img/tea1.jpg'', t_active = False\<rparr>,
        \<lparr>t_src = ''img/tea2.jpg'', t_active = True\<rparr>,
        \<lparr>t_src = ''img/tea3.jpg'', t_active = False\<rparr>],
     modalProductName = ''Tea'', container_show = True, bar_width = 5 / 3,
     bar_transition = ''width 0.05s linear'', bar_animate = False,
     app_products =
       [\<lparr>p_id = 1, p_name = ''Rakija'', p_description = ''Plum brandy'',
           p_price = ''1200 RSD'', p_country = ''Serbia'',
           p_category = ''drinks'', p_images = [''img/rakija.jpg''],
           p_tags = [''serbia'']\<rparr>,
        \<lparr>p_id = 2, p_name = ''Tea'', p_description = ''Green tea'',
           p_price = ''300'', p_country = ''China'',
           p_category = ''drinks'',
           p_images =
             [''img/tea1.jpg'', ''img/tea2.jpg'', ''img/tea3.jpg''],
           p_tags = [''china'']\<rparr>],
     sessions =
       [\<lparr>s_images = [''img/tea1.jpg'', ''img/tea2.jpg'', ''img/tea3.jpg''],
           currentImageIndex = Some 1, progress = Some (5 / 3)\<rparr>],
     listeners =
       [\<lparr>l_images = [''img/tea1.jpg'', ''img/tea2.jpg'', ''img/tea3.jpg''],
           l_intervalId = 3, l_progressInterval = 4\<rparr>],
     timers =
       [\<lparr>tid = 3, due = 6100, period = Some 3000, cb = CbRotate 0\<rparr>,
        \<lparr>tid = 4, due = 3150, period = Some 50, cb = CbProgress 0\<rparr>,
        \<lparr>tid = 5, due = 3250, period = None, cb = CbClearTransition\<rparr>],
     nextTimerId = 6, now = 3100\<rparr>"

definition resumed_state :: ui_state where
  "resumed_state =
  \<lparr>rot_enabled = True, rot_interval = 3000, onlyInModal = True,
     rot_modal = Some 7, rot_progress = Some 8, modal_display = ''block'',
     mainImage_src = ''img/tea2.jpg'',
     thumbnails =
       [\<lparr>t_src = ''img/tea1.jpg'', t_active = False\<rparr>,
        \<lparr>t_src = ''img/tea2.jpg'', t_active = True\<rparr>,
        \<lparr>t_src = ''img/tea3.jpg'', t_active = False\<rparr>],
     modalProductName = ''Tea'', container_show = True, bar_width = 0,
     bar_transition = ''width 0.1s ease-out'', bar_animate = False,
     app_products =
       [\<lparr>p_id = 1, p_name = ''Rakija'', p_description = ''Plum brandy'',
           p_price = ''1200 RSD'', p_country = ''Serbia'',
           p_category = ''drinks'', p_images = [''img/rakija.jpg''],
           p_tags = [''serbia'']\<rparr>,
        \<lparr>p_id = 2, p_name = ''Tea'', p_description = ''Green tea'',
           p_price = ''300'', p_country = ''China'',
           p_category = ''drinks'',
           p_images =
             [''img/tea1.jpg'', ''img/tea2.jpg'', ''img/tea3.jpg''],
           p_tags = [''china'']\<rparr>],
     sessions =
       [\<lparr>s_images = [''img/tea1.jpg'', ''img/tea2.jpg'', ''img/tea3.jpg''],
           currentImageIndex = Some 1, progress = Some (5 / 3)\<rparr>,
        \<lparr>s_images = [''img/tea1.jpg'', ''img/tea2.jpg'', ''img/tea3.jpg''],
           currentImageIndex = Some 0, progress = Some 0\<rparr>],
     listeners =
       [\<lparr>l_images = [''img/tea1.jpg'', ''img/tea2.jpg'', ''img/tea3.jpg''],
           l_intervalId = 7, l_progressInterval = 8\<rparr>],
     timers =
       [\<lparr>tid = 5, due = 3250, period = None, cb = CbClearTransition\<rparr>,
        \<lparr>tid = 6, due = 3250, period = None,
           cb = CbRestoreTransition ''width 0.05s linear''\<rparr>,
        \<lparr>tid = 7, due = 6100, period = Some 3000, cb = CbRotate 1\<rparr>,
        \<lparr>tid = 8, due = 3150, period = Some 50, cb = CbProgress 1\<rparr>],
     nextTimerId = 9, now = 3100\<rparr>"

definition closed_state :: ui_state where
  "closed_state =
  \<lparr>rot_enabled = True, rot_interval = 3000, onlyInModal = True,
     rot_modal = None, rot_progress = None, modal_display = ''none'',
     mainImage_src = ''img/tea2.jpg'',
     thumbnails =
       [\<lparr>t_src = ''img/tea1.jpg'', t_active = False\<rparr>,
        \<lparr>t_src = ''img/tea2.jpg'', t_active = True\<rparr>,
        \<lparr>t_src = ''img/tea3.jpg'', t_active = False\<rparr>],
     modalProductName = ''Tea'', container_show = False, bar_width = 0,
     bar_transition = ''width 0.1s ease-out'', bar_animate = False,
     app_products =
       [\<lparr>p_id = 1, p_name = ''Rakija'', p_description = ''Plum brandy'',
           p_price = ''1200 RSD'', p_country = ''Serbia'',
           p_category = ''drinks'', p_images = [''img/rakija.jpg''],
           p_tags = [''serbia'']\<rparr>,
        \<lparr>p_id = 2, p_name = ''Tea'', p_description = ''Green tea'',
           p_price = ''300'', p_country = ''China'',
           p_category = ''drinks'',
           p_images =
             [''img/tea1.jpg'', ''img/tea2.jpg'', ''img/tea3.jpg''],
           p_tags = [''china'']\<rparr>],
     sessions =
       [\<lparr>s_images = [''img/tea1.jpg'', ''img/tea2.jpg'', ''img/tea3.jpg''],
           currentImageIndex = Some 0, progress = Some 0\<rparr>],
     listeners =
       [\<lparr>l_images = [''img/tea1.jpg'', ''img/tea2.jpg'', ''img/tea3.jpg''],
           l_intervalId = 3, l_progressInterval = 4\<rparr>],
     timers =
       [\<lparr>tid = 2, due = 250, period = None, cb = CbRestoreTransition []\<rparr>,
        \<lparr>tid = 5, due = 250, period = None,
           cb = CbRestoreTransition ''width 0.1s ease-out''\<rparr>,
        \<lparr>tid = 6, due = 250, period = None,
           cb = CbSwitchRestart
                 [''img/tea1.jpg'', ''img/tea2.jpg'', ''img/tea3.jpg''] 1\<rparr>],
     nextTimerId = 7, now = 150\<rparr>"

section \<open>Properties of the product store\<close>

lemmas store_eval =
  fresh_store_def filterProductsByCategory_def getProductById_def filter_and_cache_def
  cache_set_def products_value_def string_of_int_def digit_char_def serbia_product_def
  china_product_def searchProducts_def getProductsByPriceRange_def getProductsByCountry_def
  getUniqueCategories_def string_of_nat.simps Let_def








text \<open>
  Claim C4 says that every cached query returns what recomputing it from the product list
  returns, whatever was asked before. The category query stores under the bare category
  string, the other queries under prefixed strings, all in one map: after
  \<open>getProductById(1)\<close> the category \<open>product_1\<close> is answered with the cached product object,
  where recomputing gives the empty array.
\<close>

theorem filter_cache_key_collision:
  "fst (filterProductsByCategory ''product_1''
          (snd (getProductById 1 (fresh_store [serbia_product, china_product])))) =
     Inr (ProductObj serbia_product)
   \<and> recompute (QCategory ''product_1'') [serbia_product, china_product] = ProductList []"
  by (simp add: store_eval)

text \<open>
  Claim C10 says that \<open>getProductById\<close> returns \<open>null\<close> for every identifier the product
  list does not have. No product has the identifier 5, yet after the category query
  \<open>product_5\<close> the lookup returns the empty array that query cached under the same key.
\<close>

theorem getProductById_missing_id_returns_cached_array:
  "find (\<lambda>p. p_id p = 5) [serbia_product, china_product] = None
   \<and> fst (getProductById 5
        (snd (filterProductsByCategory ''product_5'' (fresh_store [serbia_product, china_product])))) =
     Inr (ProductList [])"
  by (simp add: store_eval)

text \<open>
  What does hold for a missing identifier: when nothing is cached under its key, the
  lookup returns \<open>null\<close>, stores \<open>null\<close> under the key, and the next lookup returns the
  cached \<open>null\<close>.
\<close>

lemma getProductById_missing_null:
  assumes "products s = Loaded ps" and "find (\<lambda>p. p_id p = i) ps = None"
    and "filterCache s (''product_'' @ string_of_int i) = None"
  shows "fst (getProductById i s) = Inr Null"
    and "filterCache (snd (getProductById i s)) (''product_'' @ string_of_int i) = Some Null"
    and "fst (getProductById i (snd (getProductById i s))) = Inr Null"
  using assms by (simp_all add: getProductById_def cache_set_def Let_def)

subsection \<open>What the filter cache does guarantee\<close>

lemma filter_and_cache_keeps_entries:
  "filterCache s k = Some v \<Longrightarrow> filterCache s k' = None \<Longrightarrow>
   filterCache (snd (filter_and_cache k' f s)) k = Some v"
  by (auto simp: filter_and_cache_def cache_set_def split: products_var.splits)

lemma run_query_keeps_entries:
  assumes "filterCache s k = Some v"
  shows "filterCache (snd (run_query q s)) k = Some v"
proof (cases q)
  case (QCategory c)
  with assms show ?thesis
    by (auto simp: filterProductsByCategory_def cache_set_def filter_and_cache_keeps_entries
        split: option.splits)
next
  case (QById i)
  with assms show ?thesis
    by (auto simp: getProductById_def cache_set_def Let_def split: option.splits products_var.splits)
next
  case (QSearch x)
  with assms show ?thesis
    by (auto simp: searchProducts_def Let_def filter_and_cache_keeps_entries split: option.splits)
next
  case (QPrice lo hi)
  with assms show ?thesis
    by (auto simp: getProductsByPriceRange_def Let_def filter_and_cache_keeps_entries split: option.splits)
next
  case (QCountry c)
  with assms show ?thesis
    by (auto simp: getProductsByCountry_def Let_def filter_and_cache_keeps_entries split: option.splits)
next
  case QUnique
  with assms show ?thesis
    by (auto simp: getUniqueCategories_def cache_set_def Let_def split: option.splits products_var.splits)
qed

lemma run_queries_keep_entries:
  "filterCache s k = Some v \<Longrightarrow> filterCache (run_queries qs s) k = Some v"
  by (induction qs arbitrary: s) (simp_all add: run_query_keeps_entries)

text \<open>
  An entry of the filter cache is never overwritten, so after a lookup of a missing
  identifier has stored \<open>null\<close>, every later lookup in the same cache epoch returns
  \<open>null\<close>, whatever is asked in between.
\<close>

lemma getProductById_null_stays:
  assumes "products s = Loaded ps" and "find (\<lambda>p. p_id p = i) ps = None"
    and "filterCache s (''product_'' @ string_of_int i) = None"
  shows "fst (getProductById i (run_queries qs (snd (getProductById i s)))) = Inr Null"
proof -
  have "filterCache (snd (getProductById i s)) (''product_'' @ string_of_int i) = Some Null"
    using assms by (rule getProductById_missing_null(2))
  then have "filterCache (run_queries qs (snd (getProductById i s))) (''product_'' @ string_of_int i) = Some Null"
    by (rule run_queries_keep_entries)
  then show ?thesis
    by (simp add: getProductById_def Let_def)
qed

lemma cache_sound_mono: "cache_sound asked ps s \<Longrightarrow> set asked \<subseteq> set asked' \<Longrightarrow> cache_sound asked' ps s"
  unfolding cache_sound_def by blast

lemma cache_sound_hit:
  assumes "cache_sound asked ps s" and "cache_key q = Some k" and "filterCache s k = Some v"
    and "\<forall>q'\<in>set asked. cache_key q' = cache_key q \<longrightarrow> recompute q' ps = recompute q ps"
  shows "v = recompute q ps"
proof -
  from assms(1,3) obtain q' where "q' \<in> set asked" "cache_key q' = Some k" "v = recompute q' ps"
    unfolding cache_sound_def by blast
  with assms(2,4) show ?thesis by simp
qed

lemma cache_sound_store:
  assumes "cache_sound asked ps s" and "cache_key q = Some k"
  shows "cache_sound (q # asked) ps (cache_set k (recompute q ps) s)"
  using assms unfolding cache_sound_def cache_set_def by auto

lemma run_query_miss:
  assumes "products s = Loaded ps" and "cache_key q = Some k" and "filterCache s k = None"
  shows "run_query q s = (Inr (recompute q ps), cache_set k (recompute q ps) s)"
proof (cases q)
  case (QCategory c)
  with assms show ?thesis
    by (simp add: filterProductsByCategory_def filter_and_cache_def products_value_def)
next
  case (QById i)
  with assms show ?thesis
    by (simp add: getProductById_def Let_def)
next
  case (QSearch x)
  with assms show ?thesis
    by (simp add: searchProducts_def Let_def filter_and_cache_def split: if_splits)
next
  case (QPrice lo hi)
  with assms show ?thesis
    by (simp add: getProductsByPriceRange_def Let_def filter_and_cache_def)
next
  case (QCountry c)
  with assms show ?thesis
    by (simp add: getProductsByCountry_def Let_def filter_and_cache_def)
next
  case QUnique
  with assms show ?thesis
    by (simp add: getUniqueCategories_def Let_def)
qed

lemma run_query_hit:
  assumes "cache_key q = Some k" and "filterCache s k = Some v"
  shows "run_query q s = (Inr v, s)"
proof (cases q)
  case (QCategory c)
  with assms show ?thesis by (simp add: filterProductsByCategory_def)
next
  case (QById i)
  with assms show ?thesis by (simp add: getProductById_def Let_def)
next
  case (QSearch x)
  with assms show ?thesis by (simp add: searchProducts_def Let_def split: if_splits)
next
  case (QPrice lo hi)
  with assms show ?thesis by (simp add: getProductsByPriceRange_def Let_def)
next
  case (QCountry c)
  with assms show ?thesis by (simp add: getProductsByCountry_def Let_def)
next
  case QUnique
  with assms show ?thesis by (simp add: getUniqueCategories_def)
qed

lemma run_query_no_key:
  assumes "products s = Loaded ps" and "cache_key q = None"
  shows "run_query q s = (Inr (recompute q ps), s)"
  using assms
  by (cases q) (auto simp: searchProducts_def products_value_def split: if_splits)

lemma run_query_sound:
  assumes "cache_sound asked ps s"
    and "\<forall>q'\<in>set asked. cache_key q' = cache_key q \<longrightarrow> cache_key q \<noteq> None \<longrightarrow>
           recompute q' ps = recompute q ps"
  shows "fst (run_query q s) = Inr (recompute q ps)"
    and "cache_sound (q # asked) ps (snd (run_query q s))"
proof -
  have p: "products s = Loaded ps" using assms(1) by (simp add: cache_sound_def)
  have "fst (run_query q s) = Inr (recompute q ps) \<and> cache_sound (q # asked) ps (snd (run_query q s))"
  proof (cases "cache_key q")
    case None
    with p assms(1) show ?thesis
      by (simp add: run_query_no_key cache_sound_mono [of asked ps s "q # asked"] subset_insertI)
  next
    case (Some k)
    show ?thesis
    proof (cases "filterCache s k")
      case None
      with p Some assms(1) show ?thesis
        by (simp add: run_query_miss cache_sound_store)
    next
      case (Some v)
      have "v = recompute q ps"
        using assms(1) \<open>cache_key q = Some k\<close> Some
      proof (rule cache_sound_hit)
        show "\<forall>q'\<in>set asked. cache_key q' = cache_key q \<longrightarrow> recompute q' ps = recompute q ps"
          using assms(2) \<open>cache_key q = Some k\<close> by simp
      qed
      with Some \<open>cache_key q = Some k\<close> assms(1) show ?thesis
        by (simp add: run_query_hit cache_sound_mono [of asked ps s "q # asked"] subset_insertI)
    qed
  qed
  then show "fst (run_query q s) = Inr (recompute q ps)"
    and "cache_sound (q # asked) ps (snd (run_query q s))" by simp_all
qed

lemma agree_on_keysD:
  "agree_on_keys ps qs \<Longrightarrow> q \<in> set qs \<Longrightarrow> q' \<in> set qs \<Longrightarrow> cache_key q = cache_key q' \<Longrightarrow>
   cache_key q \<noteq> None \<Longrightarrow> recompute q ps = recompute q' ps"
  unfolding agree_on_keys_def by blast

lemma agree_on_keys_subset:
  "agree_on_keys ps qs \<Longrightarrow> set qs' \<subseteq> set qs \<Longrightarrow> agree_on_keys ps qs'"
  unfolding agree_on_keys_def by blast

lemma run_queries_sound:
  assumes "cache_sound asked ps s" and "agree_on_keys ps (asked @ qs)"
  shows "cache_sound (rev qs @ asked) ps (run_queries qs s)"
  using assms
proof (induction qs arbitrary: s asked)
  case Nil
  then show ?case by simp
next
  case (Cons q qs)
  have "cache_sound (q # asked) ps (snd (run_query q s))"
    using Cons.prems(1)
  proof (rule run_query_sound(2))
    show "\<forall>q'\<in>set asked. cache_key q' = cache_key q \<longrightarrow> cache_key q \<noteq> None \<longrightarrow>
        recompute q' ps = recompute q ps"
    proof (intro ballI impI)
      fix q' assume a: "q' \<in> set asked" "cache_key q' = cache_key q" "cache_key q \<noteq> None"
      show "recompute q' ps = recompute q ps"
        using Cons.prems(2)
      proof (rule agree_on_keysD)
        show "q' \<in> set (asked @ q # qs)" using a(1) by simp
        show "q \<in> set (asked @ q # qs)" by simp
        show "cache_key q' = cache_key q" by (rule a(2))
        show "cache_key q' \<noteq> None" using a(2,3) by simp
      qed
    qed
  qed
  moreover have "agree_on_keys ps ((q # asked) @ qs)"
    using Cons.prems(2) by (rule agree_on_keys_subset) auto
  ultimately have "cache_sound (rev qs @ q # asked) ps (run_queries qs (snd (run_query q s)))"
    by (rule Cons.IH)
  then show ?case by simp
qed

text \<open>
  Where the queries that share a key agree on their result, caching is transparent: from
  a cleared cache, each query returns what recomputing it from the product list returns.
\<close>

lemma cached_queries_transparent:
  assumes "products s = Loaded ps" and "filterCache s = Map.empty" and "agree_on_keys ps (qs @ [q])"
  shows "fst (run_query q (run_queries qs s)) = Inr (recompute q ps)"
proof -
  have "cache_sound [] ps s"
    using assms(1,2) by (simp add: cache_sound_def)
  moreover have "agree_on_keys ps ([] @ qs)"
    using assms(3) by (rule agree_on_keys_subset) auto
  ultimately have "cache_sound (rev qs @ []) ps (run_queries qs s)"
    by (rule run_queries_sound)
  then show ?thesis
  proof (rule run_query_sound(1))
    show "\<forall>q'\<in>set (rev qs @ []). cache_key q' = cache_key q \<longrightarrow> cache_key q \<noteq> None \<longrightarrow>
        recompute q' ps = recompute q ps"
    proof (intro ballI impI)
      fix q' assume a: "q' \<in> set (rev qs @ [])" "cache_key q' = cache_key q" "cache_key q \<noteq> None"
      show "recompute q' ps = recompute q ps"
        using assms(3)
      proof (rule agree_on_keysD)
        show "q' \<in> set (qs @ [q])" using a(1) by simp
        show "q \<in> set (qs @ [q])" by simp
        show "cache_key q' = cache_key q" by (rule a(2))
        show "cache_key q' \<noteq> None" using a(2,3) by simp
      qed
    qed
  qed
qed

section \<open>Properties of product loading\<close>

lemmas loader_eval =
  initial_store_def fresh_store_def fallback_store_def only_china_def all_rejected_def
  empty_object_def loadProducts_def loadProducts_begin_def loadProducts_finish_def
  loadProducts_try_def loadAllProducts_def loadAllProducts_begin_def loadAllProducts_poll_def
  loadAllProducts_finish_def loadProductsFromFile_def fetch_array_def response_ok_def
  country_files_def safeLog_def clearCaches_def call_clearCaches_def loaded_ok_def
  loadProducts_start_def number_for_products_def unprintable_length_def products_value_def Let_def

lemma failing_fetch_array: "failing outcome \<Longrightarrow> \<exists>e. fetch_array outcome = Inl e"
  by (auto simp: failing_def fetch_array_def split: fetch_outcome.splits body.splits json_doc.splits if_splits)

lemma loadProductsFromFile_result:
  "fst (loadProductsFromFile f env s) = Inr (file_result env s f)"
  by (simp add: loadProductsFromFile_def file_result_def split: option.splits sum.splits)

lemma loadProductsFromFile_cache_other:
  "g \<noteq> f \<Longrightarrow> productsCache (snd (loadProductsFromFile f env s)) g = productsCache s g"
  by (simp add: loadProductsFromFile_def safeLog_def split: option.splits sum.splits)

lemma error_logged_safeLog: "error_logged s \<Longrightarrow> error_logged (safeLog lv msg s)"
  by (simp add: error_logged_def safeLog_def)

lemma error_logged_safeLog_Error: "error_logged (safeLog Error msg s)"
  by (simp add: error_logged_def safeLog_def)

lemma error_logged_loadProductsFromFile:
  "error_logged s \<Longrightarrow> error_logged (snd (loadProductsFromFile f env s))"
  by (auto simp: loadProductsFromFile_def error_logged_def safeLog_def split: option.splits sum.splits)

lemma loadProductsFromFile_failing:
  assumes "productsCache s f = None" and "failing (env f)"
  shows "fst (loadProductsFromFile f env s) = Inr []"
    and "error_logged (snd (loadProductsFromFile f env s))"
  using assms failing_fetch_array [of "env f"]
  by (auto simp: loadProductsFromFile_def error_logged_def safeLog_def)

lemma file_result_cong:
  "productsCache s1 f = productsCache s f \<Longrightarrow> file_result env s1 f = file_result env s f"
  by (simp add: file_result_def)

lemma load_files_result:
  "distinct fs \<Longrightarrow> fst (load_files fs env s) = concat (map (file_result env s) fs)"
proof (induction fs arbitrary: s)
  case Nil
  then show ?case by simp
next
  case (Cons f fs)
  obtain r s1 where r: "loadProductsFromFile f env s = (r, s1)"
    by (cases "loadProductsFromFile f env s")
  have r_val: "r = Inr (file_result env s f)"
    using loadProductsFromFile_result [of f env s] r by simp
  have s1: "s1 = snd (loadProductsFromFile f env s)"
    using r by simp
  have same: "\<forall>g\<in>set fs. file_result env s1 g = file_result env s g"
  proof
    fix g assume "g \<in> set fs"
    with Cons.prems have "g \<noteq> f" by auto
    then show "file_result env s1 g = file_result env s g"
      unfolding s1 by (intro file_result_cong loadProductsFromFile_cache_other)
  qed
  have "fst (load_files fs env s1) = concat (map (file_result env s1) fs)"
    using Cons.IH Cons.prems by simp
  also have "\<dots> = concat (map (file_result env s) fs)"
    using same by (simp cong: map_cong)
  finally show ?case
    using r r_val by (simp add: case_prod_unfold)
qed

lemma load_files_error_kept:
  "error_logged s \<Longrightarrow> error_logged (snd (load_files fs env s))"
proof (induction fs arbitrary: s)
  case Nil
  then show ?case by simp
next
  case (Cons f fs)
  then show ?case
    using error_logged_loadProductsFromFile [of s f env]
    by (simp add: case_prod_unfold)
qed

lemma load_files_cache_other:
  "g \<notin> set fs \<Longrightarrow> productsCache (snd (load_files fs env s)) g = productsCache s g"
proof (induction fs arbitrary: s)
  case Nil
  then show ?case by simp
next
  case (Cons f fs)
  then show ?case
    using loadProductsFromFile_cache_other [of g f env s]
    by (simp add: case_prod_unfold)
qed

lemma load_files_first_failing:
  assumes "productsCache s f = None" and "failing (env f)"
  shows "error_logged (snd (load_files (f # fs) env s))"
proof -
  have "error_logged (snd (loadProductsFromFile f env s))"
    using assms by (rule loadProductsFromFile_failing(2))
  then have "error_logged (snd (load_files fs env (snd (loadProductsFromFile f env s))))"
    by (rule load_files_error_kept)
  then show ?thesis
    by (simp add: case_prod_unfold)
qed

lemma distinct_country_files: "distinct country_files"
  by (simp add: country_files_def)

lemma file_result_failing:
  "productsCache s f = None \<Longrightarrow> failing (env f) \<Longrightarrow> file_result env s f = []"
  using failing_fetch_array [of "env f"] by (auto simp: file_result_def)

lemma loadAllProducts_result:
  assumes "productsCache s ''all_products'' = None" and "\<not> loaderIsLoading s"
  shows "fst (loadAllProducts env s) = Some (Inr (concat (map (file_result env s) country_files)))"
proof -
  let ?s1 = "safeLog Info ''start loading all products'' (s\<lparr>loaderIsLoading := True\<rparr>)"
  have b: "loadAllProducts_begin s = (LFetching, ?s1)"
    using assms by (simp add: loadAllProducts_begin_def)
  have "fst (load_files country_files env ?s1) = concat (map (file_result env ?s1) country_files)"
    by (rule load_files_result [OF distinct_country_files])
  moreover have "file_result env ?s1 = file_result env s"
    by (rule ext) (simp add: file_result_def safeLog_def)
  ultimately show ?thesis
    using b by (simp add: loadAllProducts_def loadAllProducts_finish_def case_prod_unfold)
qed

lemma loadAllProducts_all_failing_logged:
  assumes "productsCache s ''all_products'' = None" and "\<not> loaderIsLoading s"
    and "\<forall>f\<in>set country_files. productsCache s f = None \<and> failing (env f)"
  shows "error_logged (snd (loadAllProducts env s))"
proof -
  let ?s1 = "safeLog Info ''start loading all products'' (s\<lparr>loaderIsLoading := True\<rparr>)"
  have b: "loadAllProducts_begin s = (LFetching, ?s1)"
    using assms by (simp add: loadAllProducts_begin_def)
  have "productsCache ?s1 ''product/serbia-products.json'' = None"
       "failing (env ''product/serbia-products.json'')"
    using assms(3) by (simp_all add: country_files_def safeLog_def)
  then have "error_logged (snd (load_files country_files env ?s1))"
    unfolding country_files_def by (rule load_files_first_failing)
  then show ?thesis
    using b by (simp add: loadAllProducts_def loadAllProducts_finish_def error_logged_def safeLog_def
        case_prod_unfold)
qed

lemma loadProducts_fallback_failing:
  assumes "products s = Loaded []" and "\<not> dataIsLoading s" and "\<not> hasProductLoader s"
    and "failing_fallback (env ''product/product.json'')"
  shows "fst (loadProducts env s) = Some (Inr (ProductList []))"
    and "error_logged (snd (loadProducts env s))"
  using assms
  by (auto simp: loadProducts_def loadProducts_begin_def loadProducts_start_def
      loadProducts_finish_def loadProducts_try_def failing_fallback_def safeLog_def
      error_logged_def Let_def
      split: fetch_outcome.splits body.splits json_doc.splits products_field.splits
        length_test.splits if_splits)

lemma loadProducts_with_loader:
  assumes "products s = Loaded []" and "\<not> dataIsLoading s" and "hasProductLoader s"
    and "productsCache s ''all_products'' = None" and "\<not> loaderIsLoading s"
  shows "fst (loadProducts env s) =
         Some (Inr (ProductList (concat (map (file_result env s) country_files))))"
proof -
  let ?s0 = "safeLog Info ''using ProductLoader''
               (safeLog Info ''start loading products'' (s\<lparr>dataIsLoading := True\<rparr>))"
  let ?s1 = "safeLog Info ''start loading all products'' (?s0\<lparr>loaderIsLoading := True\<rparr>)"
  have b: "loadProducts_begin s = (AwaitLoader LFetching, ?s1)"
    using assms by (simp add: loadProducts_begin_def loadProducts_start_def
        loadAllProducts_begin_def safeLog_def Let_def)
  have "fst (load_files country_files env ?s1) = concat (map (file_result env ?s1) country_files)"
    by (rule load_files_result [OF distinct_country_files])
  moreover have "file_result env ?s1 = file_result env s"
    by (rule ext) (simp add: file_result_def safeLog_def)
  ultimately show ?thesis
    using b by (simp add: loadProducts_def loadAllProducts_finish_def loadProducts_finish_def
        loadProducts_try_def loaded_ok_def products_value_def call_clearCaches_def
        clearCaches_def safeLog_def case_prod_unfold Let_def)
qed

lemma loadProducts_finish_no_throw: "\<exists>v. fst (loadProducts_finish a s) = Inr v"
  by (cases "loadProducts_try a s" rule: prod.exhaust)
     (auto simp: loadProducts_finish_def split: sum.splits)

lemma loadProducts_no_throw:
  assumes "products s = Loaded ps"
  shows "fst (loadProducts env s) \<noteq> Some (Inl e)"
proof (cases "loadProducts_begin s")
  case (Pair c s1)
  have c: "c \<noteq> Returned (Inl e)"
    using assms Pair
    by (auto simp: loadProducts_begin_def loadProducts_start_def Let_def split: if_splits prod.splits)
  show ?thesis
  proof (cases c)
    case (Returned r)
    with c Pair show ?thesis by (simp add: loadProducts_def)
  next
    case (AwaitLoader st)
    with Pair show ?thesis
      using loadProducts_finish_no_throw
      by (cases st) (auto simp: loadProducts_def split: prod.splits, (metis fst_conv sum.distinct(1))+)
  next
    case AwaitFetch
    with Pair show ?thesis
      using loadProducts_finish_no_throw [of "FetchSettled (env ''product/product.json'')" s1]
      by (auto simp: loadProducts_def split: prod.splits)
  qed
qed


text \<open>
  Claim C2 says that a call of \<open>load()\<close> made while a load is in flight awaits that load and
  returns the loaded list. The second call of \<open>loadProducts\<close> below finds the flag raised
  and returns the still empty \<open>products\<close> at once, while the first call goes on to load
  and return the one product the environment serves.
\<close>

theorem loadProducts_in_flight_returns_empty:
  "fst first_call = AwaitLoader LFetching
   \<and> fst second_call = Returned (Inr (ProductList []))
   \<and> fst first_call_done = Inr (ProductList [china_product])
   \<and> products (snd first_call_done) = Loaded [china_product]"
  by (simp add: first_call_def second_call_def loader_settled_def first_call_done_def loader_eval)

text \<open>
  The sibling \<open>loadAllProducts\<close> does wait: a call made in flight polls, and after the
  first call has finished the poll returns the loaded list.
\<close>

lemma loadAllProducts_in_flight_waits:
  "fst (loadAllProducts_begin (snd first_call)) = LWaiting
   \<and> fst (loadAllProducts_poll (snd (loadAllProducts_begin (snd first_call)))) = LWaiting
   \<and> fst (loadAllProducts_poll (snd loader_settled)) = LDone [china_product]"
  by (simp add: first_call_def second_call_def loader_settled_def loader_eval)

text \<open>
  Claim C9, as stated: for every failing input \<open>loadAllProducts\<close> returns an empty array.
  With the Serbian file failing (a rejected fetch) and the Chinese file served, the
  merged result is not empty.
\<close>

theorem loadAllProducts_partial_failure_counterexample:
  "failing (only_china ''product/serbia-products.json'')
   \<and> fst (loadAllProducts only_china initial_store) = Some (Inr [china_product])"
  by (simp add: failing_def loader_eval)

text \<open>
  Claim C9, amended. A file whose fetch fails (and that is not cached) makes
  \<open>loadProductsFromFile\<close> return the empty array and log an error. \<open>loadAllProducts\<close>,
  called with nothing cached and no load in flight, returns the concatenation of what
  each file contributes, a failing file contributing nothing; when all six files fail
  that is the empty array, with an error logged. \<open>loadProducts\<close>, called while the store
  holds the empty array and no load is in flight, returns the loader's list when the
  loader is present; without the loader it returns the empty array and logs an error when
  the fallback fetch is rejected, has a status that is not OK, has a body that does not
  parse, or brings a document whose \<open>products\<close> has no \<open>length\<close> to print (\<open>null\<close>, an
  array, a primitive, an object where the property is absent, \<open>null\<close>, or a value whose
  \<open>length\<close> cannot be converted to a primitive).
  No call of \<open>loadProducts\<close> on a store that holds an array throws.
\<close>

theorem load_failures_are_contained:
  "(productsCache s f = None \<and> failing (env f) \<longrightarrow>
      fst (loadProductsFromFile f env s) = Inr [] \<and>
      error_logged (snd (loadProductsFromFile f env s)))
   \<and> (productsCache s ''all_products'' = None \<and> \<not> loaderIsLoading s \<longrightarrow>
      fst (loadAllProducts env s) = Some (Inr (concat (map (file_result env s) country_files))))
   \<and> (productsCache s ''all_products'' = None \<and> \<not> loaderIsLoading s \<and>
      (\<forall>g\<in>set country_files. productsCache s g = None \<and> failing (env g)) \<longrightarrow>
      fst (loadAllProducts env s) = Some (Inr []) \<and> error_logged (snd (loadAllProducts env s)))
   \<and> (products s = Loaded [] \<and> \<not> dataIsLoading s \<and> \<not> hasProductLoader s \<and>
      failing_fallback (env ''product/product.json'') \<longrightarrow>
      fst (loadProducts env s) = Some (Inr (ProductList [])) \<and> error_logged (snd (loadProducts env s)))
   \<and> (products s = Loaded [] \<and> \<not> dataIsLoading s \<and> hasProductLoader s \<and>
      productsCache s ''all_products'' = None \<and> \<not> loaderIsLoading s \<longrightarrow>
      fst (loadProducts env s) =
        Some (Inr (ProductList (concat (map (file_result env s) country_files)))))
   \<and> (\<forall>ps e. products s = Loaded ps \<longrightarrow> fst (loadProducts env s) \<noteq> Some (Inl e))"
proof (intro conjI impI allI)
  assume "productsCache s f = None \<and> failing (env f)"
  then show "fst (loadProductsFromFile f env s) = Inr []"
    and "error_logged (snd (loadProductsFromFile f env s))"
    by (simp_all add: loadProductsFromFile_failing)
next
  assume "productsCache s ''all_products'' = None \<and> \<not> loaderIsLoading s"
  then show "fst (loadAllProducts env s) = Some (Inr (concat (map (file_result env s) country_files)))"
    by (simp add: loadAllProducts_result)
next
  assume a: "productsCache s ''all_products'' = None \<and> \<not> loaderIsLoading s \<and>
    (\<forall>g\<in>set country_files. productsCache s g = None \<and> failing (env g))"
  then have "\<forall>g\<in>set country_files. file_result env s g = []"
    by (simp add: file_result_failing)
  then have "concat (map (file_result env s) country_files) = []"
    by simp
  with a show "fst (loadAllProducts env s) = Some (Inr [])"
    by (simp add: loadAllProducts_result)
  from a show "error_logged (snd (loadAllProducts env s))"
    by (simp add: loadAllProducts_all_failing_logged)
next
  assume "products s = Loaded [] \<and> \<not> dataIsLoading s \<and> \<not> hasProductLoader s \<and>
    failing_fallback (env ''product/product.json'')"
  then show "fst (loadProducts env s) = Some (Inr (ProductList []))"
    and "error_logged (snd (loadProducts env s))"
    by (simp_all add: loadProducts_fallback_failing)
next
  assume "products s = Loaded [] \<and> \<not> dataIsLoading s \<and> hasProductLoader s \<and>
    productsCache s ''all_products'' = None \<and> \<not> loaderIsLoading s"
  then show "fst (loadProducts env s) =
      Some (Inr (ProductList (concat (map (file_result env s) country_files))))"
    by (simp add: loadProducts_with_loader)
next
  fix ps e
  assume "products s = Loaded ps"
  then show "fst (loadProducts env s) \<noteq> Some (Inl e)"
    by (rule loadProducts_no_throw)
qed

theorem load_failures_are_contained_witness:
  "fst (loadProductsFromFile ''product/serbia-products.json'' all_rejected initial_store) = Inr []
   \<and> fst (loadAllProducts all_rejected initial_store) = Some (Inr [])
   \<and> error_logged (snd (loadAllProducts all_rejected initial_store))
   \<and> fst (loadProducts all_rejected fallback_store) = Some (Inr (ProductList []))
   \<and> fst (loadProducts only_china initial_store) = Some (Inr (ProductList [china_product]))"
  using load_failures_are_contained [of initial_store "''product/serbia-products.json''" all_rejected]
    load_failures_are_contained [of fallback_store "''product/serbia-products.json''" all_rejected]
    load_failures_are_contained [of initial_store "''product/serbia-products.json''" only_china]
  by (simp add: initial_store_def fresh_store_def fallback_store_def all_rejected_def only_china_def
      failing_def failing_fallback_def country_files_def file_result_def fetch_array_def
      response_ok_def)

text \<open>
  Outside the amended claim: the fallback branch stores \<open>data.products\<close> before looking
  at it, where \<open>loadProductsFromFile\<close> tests \<open>Array.isArray\<close>. After a fallback document
  without a \<open>products\<close> property the call itself returns the empty array, but
  \<open>products\<close> is left \<open>undefined\<close>, and the next call throws at \<open>products.length\<close>,
  before its \<open>try\<close> block.
\<close>

lemma loadProducts_after_malformed_fallback_throws:
  "fst (loadProducts empty_object fallback_store) = Some (Inr (ProductList []))
   \<and> products (snd (loadProducts empty_object fallback_store)) = Unset
   \<and> fst (loadProducts empty_object (snd (loadProducts empty_object fallback_store))) = Some (Inl TypeError)"
  by (simp add: loader_eval)

text \<open>
  Also outside it: a fallback document whose \<open>products\<close> is a value other than an array
  or \<open>null\<close>, such as \<open>{"products": 5}\<close>, raises nothing. The value is stored, the
  success line is logged, and the call returns the value itself: no empty array and no
  logged error.
\<close>

lemma loadProducts_fallback_non_array_returned:
  "fst (loadProducts number_for_products fallback_store) = Some (Inr OtherValue)
   \<and> products (snd (loadProducts number_for_products fallback_store)) = Foreign LengthNotPositive
   \<and> \<not> error_logged (snd (loadProducts number_for_products fallback_store))"
  by (simp add: loader_eval error_logged_def)

text \<open>
  A value whose \<open>length\<close> cannot be converted to a primitive is stored as well; printing it
  throws inside the \<open>try\<close> block, so this call returns the empty array with an error
  logged, and the next call throws at the comparison, like after \<open>undefined\<close>.
\<close>

lemma loadProducts_fallback_unprintable_length:
  "fst (loadProducts unprintable_length fallback_store) = Some (Inr (ProductList []))
   \<and> products (snd (loadProducts unprintable_length fallback_store)) = Foreign LengthThrows
   \<and> error_logged (snd (loadProducts unprintable_length fallback_store))
   \<and> fst (loadProducts unprintable_length (snd (loadProducts unprintable_length fallback_store)))
       = Some (Inl TypeError)"
  by (simp add: loader_eval error_logged_def)

text \<open>
  In general, with no load in flight, \<open>loadProducts\<close> throws exactly on the three values of
  the variable whose \<open>length\<close> cannot be compared with 0.
\<close>

lemma loadProducts_throws_iff:
  assumes "\<not> dataIsLoading s"
  shows "(\<exists>e. fst (loadProducts env s) = Some (Inl e)) \<longleftrightarrow>
         products s = Unset \<or> products s = NullValue \<or> products s = Foreign LengthThrows"
proof (cases "products s")
  case (Loaded ps)
  then show ?thesis using loadProducts_no_throw [of s ps env] by simp
next
  case Unset
  with assms show ?thesis by (simp add: loadProducts_def loadProducts_begin_def)
next
  case NullValue
  with assms show ?thesis by (simp add: loadProducts_def loadProducts_begin_def)
next
  case (Foreign l)
  show ?thesis
  proof (cases l)
    case LengthPositive
    with Foreign assms show ?thesis by (simp add: loadProducts_def loadProducts_begin_def)
  next
    case LengthNotPositive
    obtain c s1 where b: "loadProducts_begin s = (c, s1)" by (cases "loadProducts_begin s")
    have c: "\<forall>e. c \<noteq> Returned (Inl e)"
      using assms Foreign LengthNotPositive b
      by (auto simp: loadProducts_begin_def loadProducts_start_def Let_def split: if_splits prod.splits)
    have "fst (loadProducts env s) \<noteq> Some (Inl e)" for e
    proof (cases c)
      case (Returned r)
      with c b show ?thesis by (auto simp: loadProducts_def)
    next
      case (AwaitLoader st)
      with b show ?thesis
        using loadProducts_finish_no_throw
        by (cases st) (auto simp: loadProducts_def split: prod.splits, (metis fst_conv sum.distinct(1))+)
    next
      case AwaitFetch
      with b show ?thesis
        using loadProducts_finish_no_throw [of "FetchSettled (env ''product/product.json'')" s1]
        by (auto simp: loadProducts_def split: prod.splits)
    qed
    with Foreign LengthNotPositive show ?thesis by simp
  next
    case LengthThrows
    with Foreign assms show ?thesis by (simp add: loadProducts_def loadProducts_begin_def)
  qed
qed

section \<open>Properties of the image rotation\<close>

subsection \<open>The stored handles name the live rotation timers\<close>

lemma handles_invI:
  assumes "0 < nextTimerId s" "distinct (map tid (timers s))"
    and "\<And>t. t \<in> set (timers s) \<Longrightarrow> 0 < tid t \<and> tid t < nextTimerId s"
    and "\<And>t. t \<in> set (timers s) \<Longrightarrow> is_advance t \<Longrightarrow> rot_modal s = Some (tid t)"
    and "\<And>t. t \<in> set (timers s) \<Longrightarrow> is_progress t \<Longrightarrow> rot_progress s = Some (tid t)"
  shows "handles_inv s"
  using assms by (auto simp: handles_inv_def list_all_iff)

lemma handles_invD:
  assumes "handles_inv s"
  shows "0 < nextTimerId s" "distinct (map tid (timers s))"
    and "\<And>t. t \<in> set (timers s) \<Longrightarrow> 0 < tid t"
    and "\<And>t. t \<in> set (timers s) \<Longrightarrow> tid t < nextTimerId s"
    and "\<And>t. t \<in> set (timers s) \<Longrightarrow> is_advance t \<Longrightarrow> rot_modal s = Some (tid t)"
    and "\<And>t. t \<in> set (timers s) \<Longrightarrow> is_progress t \<Longrightarrow> rot_progress s = Some (tid t)"
  using assms by (auto simp: handles_inv_def list_all_iff)

text \<open>Changes that keep the invariant: dropping timers, and adding a timer that is neither kind.\<close>

lemma handles_inv_subset:
  assumes "handles_inv s" and "nextTimerId s' = nextTimerId s"
    and "rot_modal s' = rot_modal s" and "rot_progress s' = rot_progress s"
    and "timers s' = filter P (timers s)"
  shows "handles_inv s'"
  using assms by (auto simp: handles_inv_def list_all_iff distinct_map_filter)

lemma handles_inv_same_timers:
  assumes "handles_inv s" and "nextTimerId s' = nextTimerId s"
    and "rot_modal s' = rot_modal s" and "rot_progress s' = rot_progress s"
    and "timers s' = timers s"
  shows "handles_inv s'"
  using assms by (auto simp: handles_inv_def)

lemma handles_inv_clearInterval: "handles_inv s \<Longrightarrow> handles_inv (clearInterval i s)"
  by (erule handles_inv_subset) (simp_all add: clearInterval_def)

lemma handles_inv_clear_if_set: "handles_inv s \<Longrightarrow> handles_inv (clear_if_set h s)"
  by (simp add: clear_if_set_def handles_inv_clearInterval split: option.splits)

lemma handles_inv_set_timer:
  assumes "handles_inv s" and "\<not> is_advance \<lparr>tid = nextTimerId s, due = now s + d, period = p, cb = c\<rparr>"
    and "\<not> is_progress \<lparr>tid = nextTimerId s, due = now s + d, period = p, cb = c\<rparr>"
  shows "handles_inv (snd (set_timer c d p s))"
  using assms
  by (auto simp: handles_inv_def set_timer_def list_all_iff)

lemma handles_inv_forceResetProgressBar: "handles_inv s \<Longrightarrow> handles_inv (forceResetProgressBar s)"
  unfolding forceResetProgressBar_def setTimeout_def
  by (rule handles_inv_set_timer)
     (auto simp: handles_inv_def is_advance_def is_progress_def)

text \<open>After both stored handles are cleared no advance and no progress timer is left.\<close>

lemma cleared_no_rotation:
  assumes "handles_inv s" and "s1 = clear_if_set (rot_progress s) (clear_if_set (rot_modal s) s)"
  shows "list_all (\<lambda>t. \<not> is_advance t \<and> \<not> is_progress t) (timers s1)"
  using assms
  by (auto simp: handles_inv_def list_all_iff clear_if_set_def clearInterval_def
      split: option.splits if_splits)


lemma start_fields:
  fixes images i s
  defines "s2 \<equiv> pre_start s"
  defines "r \<equiv> startModalImageRotationWithIndex images i s"
  shows "fst r = (nextTimerId s2, nextTimerId s2 + 1)"
    and "timers (snd r) = timers s2 @
           [\<lparr>tid = nextTimerId s2, due = now s2 + rot_interval s2, period = Some (rot_interval s2),
             cb = CbRotate (length (sessions s2))\<rparr>,
            \<lparr>tid = nextTimerId s2 + 1, due = now s2 + 50, period = Some 50,
             cb = CbProgress (length (sessions s2))\<rparr>]"
    and "rot_modal (snd r) = Some (nextTimerId s2)"
    and "rot_progress (snd r) = Some (nextTimerId s2 + 1)"
    and "nextTimerId (snd r) = nextTimerId s2 + 2"
  unfolding r_def s2_def pre_start_def startModalImageRotationWithIndex_def
  by (simp_all add: Let_def setInterval_def set_timer_def)

lemma pre_start_inv:
  assumes "handles_inv s"
  shows "handles_inv (pre_start s)"
    and "list_all (\<lambda>t. \<not> is_advance t \<and> \<not> is_progress t) (timers (pre_start s))"
proof -
  let ?s1 = "clear_if_set (rot_progress s) (clear_if_set (rot_modal s) s)"
  have i1: "handles_inv ?s1"
    using assms by (simp add: handles_inv_clear_if_set)
  then show "handles_inv (pre_start s)"
    unfolding pre_start_def by (rule handles_inv_forceResetProgressBar)
  have "list_all (\<lambda>t. \<not> is_advance t \<and> \<not> is_progress t) (timers ?s1)"
    using assms by (rule cleared_no_rotation) simp
  then show "list_all (\<lambda>t. \<not> is_advance t \<and> \<not> is_progress t) (timers (pre_start s))"
    by (simp add: pre_start_def forceResetProgressBar_def setTimeout_def set_timer_def
        is_advance_def is_progress_def)
qed

lemma start_establishes:
  fixes images i s
  defines "r \<equiv> startModalImageRotationWithIndex images i s"
  assumes "handles_inv s"
  shows "handles_inv (snd r)"
    and "map tid (advance_timers (snd r)) = [fst (fst r)]"
    and "map tid (progress_timers (snd r)) = [snd (fst r)]"
proof -
  note f = start_fields [of images i s, folded r_def]
  note p = pre_start_inv [OF assms(2)]
  have none: "filter is_advance (timers (pre_start s)) = []" "filter is_progress (timers (pre_start s)) = []"
    using p(2) by (auto simp: list_all_iff filter_empty_conv)
  show "map tid (advance_timers (snd r)) = [fst (fst r)]"
    by (simp add: advance_timers_def f none is_advance_def)
  show "map tid (progress_timers (snd r)) = [snd (fst r)]"
    by (simp add: progress_timers_def f none is_progress_def)
  show "handles_inv (snd r)"
  proof (rule handles_invI)
    show "0 < nextTimerId (snd r)" by (simp add: f)
    show "distinct (map tid (timers (snd r)))"
      using handles_invD(2) [OF p(1)] handles_invD(4) [OF p(1)] by (fastforce simp: f)
  next
    fix t assume "t \<in> set (timers (snd r))"
    then show "0 < tid t \<and> tid t < nextTimerId (snd r)"
      using handles_invD(1) [OF p(1)] handles_invD(3) [OF p(1), of t] handles_invD(4) [OF p(1), of t]
      by (auto simp: f)
  next
    fix t assume "t \<in> set (timers (snd r))" "is_advance t"
    then show "rot_modal (snd r) = Some (tid t)"
      using p(2) by (auto simp: f list_all_iff is_advance_def)
  next
    fix t assume "t \<in> set (timers (snd r))" "is_progress t"
    then show "rot_progress (snd r) = Some (tid t)"
      using p(2) by (auto simp: f list_all_iff is_progress_def)
  qed
qed

lemma handles_inv_start: "handles_inv s \<Longrightarrow> handles_inv (snd (startModalImageRotationWithIndex images i s))"
  by (rule start_establishes)

lemma handles_inv_startModal: "handles_inv s \<Longrightarrow> handles_inv (snd (startModalImageRotation images s))"
  by (simp add: startModalImageRotation_def handles_inv_start)

lemma handles_inv_listeners [simp]: "handles_inv (s\<lparr>listeners := ls\<rparr>) = handles_inv s"
  by (simp add: handles_inv_def)

lemma handles_inv_now [simp]: "handles_inv (s\<lparr>now := n\<rparr>) = handles_inv s"
  by (simp add: handles_inv_def)

lemma handles_inv_open_delayed: "handles_inv s \<Longrightarrow> handles_inv (open_delayed images s)"
  by (simp add: open_delayed_def Let_def handles_inv_startModal)

lemma handles_inv_switch_restart: "handles_inv s \<Longrightarrow> handles_inv (switch_restart images i s)"
proof -
  assume a: "handles_inv s"
  let ?r = "startModalImageRotationWithIndex images i s"
  have "(snd ?r)\<lparr>rot_modal := Some (fst (fst ?r)), rot_progress := Some (snd (fst ?r))\<rparr> = snd ?r"
    using start_fields(1,3,4) [of images i s] by simp
  then show ?thesis
    using a by (simp add: switch_restart_def Let_def handles_inv_start)
qed

lemma handles_inv_test_stop: "handles_inv s \<Longrightarrow> handles_inv (test_stop i p s)"
  by (simp add: test_stop_def handles_inv_clear_if_set)

lemma handles_inv_rotateImages: "handles_inv s \<Longrightarrow> handles_inv (rotateImages sid s)"
  unfolding rotateImages_def Let_def setTimeout_def
  by (auto intro!: handles_inv_set_timer simp: is_advance_def is_progress_def
      elim: handles_inv_same_timers)

lemma handles_inv_updateProgress: "handles_inv s \<Longrightarrow> handles_inv (updateProgress sid s)"
  unfolding updateProgress_def Let_def
  by (auto elim!: handles_inv_same_timers split: option.splits)

lemma handles_inv_run_callback: "handles_inv s \<Longrightarrow> handles_inv (run_callback c s)"
  by (cases c)
     (auto simp: handles_inv_open_delayed handles_inv_rotateImages handles_inv_updateProgress
       handles_inv_switch_restart handles_inv_test_stop elim: handles_inv_same_timers)

lemma handles_inv_reschedule:
  assumes "handles_inv s" and "t \<in> set (timers s)"
  shows "handles_inv (s\<lparr>now := n, timers := reschedule t (timers s)\<rparr>)"
proof (cases "period t")
  case None
  with assms(1) show ?thesis
    by (auto simp: reschedule_def elim!: handles_inv_subset)
next
  case (Some p)
  let ?f = "\<lambda>u. if tid u = tid t then u\<lparr>due := due u + p\<rparr> else u"
  have tid_f: "\<And>u. tid (?f u) = tid u" by simp
  have "(\<lambda>u. tid (?f u)) = tid"
    by (rule ext) simp
  then have m: "map tid (map ?f (timers s)) = map tid (timers s)"
    by (simp add: comp_def)
  have "distinct (map tid (map ?f (timers s)))"
    using assms(1) unfolding m by (simp add: handles_inv_def)
  moreover have "list_all (\<lambda>t. 0 < tid t \<and> tid t < nextTimerId s \<and>
                    (is_advance t \<longrightarrow> rot_modal s = Some (tid t)) \<and>
                    (is_progress t \<longrightarrow> rot_progress s = Some (tid t))) (map ?f (timers s))"
    using assms(1) by (auto simp: handles_inv_def list_all_iff is_advance_def is_progress_def)
  ultimately show ?thesis
    using assms(1) Some by (simp add: handles_inv_def reschedule_def)
qed

lemma earliest_mem: "earliest ts = Some t \<Longrightarrow> t \<in> set ts"
  by (induction ts arbitrary: t) (auto split: option.splits if_splits)

lemma handles_inv_fire_next: "handles_inv s \<Longrightarrow> handles_inv (fire_next s)"
  by (auto simp: fire_next_def fire_def split: option.splits
      intro!: handles_inv_run_callback handles_inv_reschedule dest: earliest_mem)


lemma handles_inv_fields [simp]:
  "handles_inv (s\<lparr>rot_enabled := v1\<rparr>) = handles_inv s"
  "handles_inv (s\<lparr>rot_interval := v2\<rparr>) = handles_inv s"
  "handles_inv (s\<lparr>onlyInModal := v3\<rparr>) = handles_inv s"
  "handles_inv (s\<lparr>modal_display := v4\<rparr>) = handles_inv s"
  "handles_inv (s\<lparr>mainImage_src := v5\<rparr>) = handles_inv s"
  "handles_inv (s\<lparr>thumbnails := v6\<rparr>) = handles_inv s"
  "handles_inv (s\<lparr>modalProductName := v7\<rparr>) = handles_inv s"
  "handles_inv (s\<lparr>container_show := v8\<rparr>) = handles_inv s"
  "handles_inv (s\<lparr>bar_width := v9\<rparr>) = handles_inv s"
  "handles_inv (s\<lparr>bar_transition := v10\<rparr>) = handles_inv s"
  "handles_inv (s\<lparr>bar_animate := v11\<rparr>) = handles_inv s"
  "handles_inv (s\<lparr>app_products := v12\<rparr>) = handles_inv s"
  "handles_inv (s\<lparr>sessions := v13\<rparr>) = handles_inv s"
  by (simp_all add: handles_inv_def)

lemma handles_inv_setTimeout_plain:
  assumes "handles_inv s" and "\<And>sid. c \<noteq> CbRotate sid" and "\<And>sid. c \<noteq> CbProgress sid"
  shows "handles_inv (snd (setTimeout c d s))"
  unfolding setTimeout_def using assms
  by (intro handles_inv_set_timer) (auto simp: is_advance_def is_progress_def split: callback.splits)

lemma handles_inv_openProductModal: "handles_inv s \<Longrightarrow> handles_inv (openProductModal p s)"
proof -
  assume a: "handles_inv s"
  let ?s1 = "showModal (createImageGallery p (fillModalContent p s))"
  have s1: "handles_inv ?s1"
    using a by (simp add: showModal_def createImageGallery_def fillModalContent_def)
  have "handles_inv (?s1\<lparr>container_show := True, bar_animate := True, bar_width := 0\<rparr>)"
    using s1 by simp
  then have "handles_inv (snd (setTimeout (CbOpenDelayed (p_images p)) 100
      (?s1\<lparr>container_show := True, bar_animate := True, bar_width := 0\<rparr>)))"
    by (rule handles_inv_setTimeout_plain) simp_all
  with s1 show ?thesis
    by (simp add: openProductModal_def Let_def)
qed

lemma handles_inv_stopAll: "handles_inv s \<Longrightarrow> handles_inv (stopAllImageRotation s)"
proof -
  assume a: "handles_inv s"
  have adv: "\<And>t. t \<in> set (timers s) \<Longrightarrow> is_advance t \<Longrightarrow> rot_modal s = Some (tid t)"
    and prog: "\<And>t. t \<in> set (timers s) \<Longrightarrow> is_progress t \<Longrightarrow> rot_progress s = Some (tid t)"
    and pos: "\<And>t. t \<in> set (timers s) \<Longrightarrow> 0 < tid t"
    and lt: "\<And>t. t \<in> set (timers s) \<Longrightarrow> tid t < nextTimerId s"
    using handles_invD [OF a] by blast+
  show ?thesis
  proof (rule handles_invI)
    show "0 < nextTimerId (stopAllImageRotation s)"
      using handles_invD(1) [OF a]
      by (simp add: stopAllImageRotation_def clearInterval_def Let_def split: option.splits)
    show "distinct (map tid (timers (stopAllImageRotation s)))"
      using handles_invD(2) [OF a]
      by (simp add: stopAllImageRotation_def clearInterval_def Let_def distinct_map_filter
          split: option.splits)
  next
    fix t assume "t \<in> set (timers (stopAllImageRotation s))"
    then have "t \<in> set (timers s)"
      by (auto simp: stopAllImageRotation_def clearInterval_def Let_def split: option.splits if_splits)
    then show "0 < tid t \<and> tid t < nextTimerId (stopAllImageRotation s)"
      using pos lt
      by (simp add: stopAllImageRotation_def clearInterval_def Let_def split: option.splits)
  next
    fix t assume t: "t \<in> set (timers (stopAllImageRotation s))" "is_advance t"
    then have m: "t \<in> set (timers s)"
      by (auto simp: stopAllImageRotation_def clearInterval_def Let_def split: option.splits if_splits)
    from t adv [OF m t(2)] pos [OF m] show "rot_modal (stopAllImageRotation s) = Some (tid t)"
      by (auto simp: stopAllImageRotation_def clearInterval_def Let_def split: option.splits if_splits)
  next
    fix t assume t: "t \<in> set (timers (stopAllImageRotation s))" "is_progress t"
    then have m: "t \<in> set (timers s)"
      by (auto simp: stopAllImageRotation_def clearInterval_def Let_def split: option.splits if_splits)
    from t prog [OF m t(2)] pos [OF m] show "rot_progress (stopAllImageRotation s) = Some (tid t)"
      by (auto simp: stopAllImageRotation_def clearInterval_def Let_def split: option.splits if_splits)
  qed
qed

lemma handles_inv_closeProductModal: "handles_inv s \<Longrightarrow> handles_inv (closeProductModal s)"
proof -
  assume a: "handles_inv s"
  have "handles_inv (s\<lparr>modal_display := ''none''\<rparr>)"
    using a by simp
  then have "handles_inv (stopAllImageRotation (s\<lparr>modal_display := ''none''\<rparr>))"
    by (rule handles_inv_stopAll)
  then show ?thesis
    by (simp add: closeProductModal_def)
qed

lemma handles_inv_pauseOnHover: "handles_inv s \<Longrightarrow> handles_inv (pauseOnHover l s)"
proof -
  assume a: "handles_inv s"
  let ?c = "clearInterval (l_progressInterval l) (clearInterval (l_intervalId l) s)"
  have c: "handles_inv ?c"
    using a by (simp add: handles_inv_clearInterval)
  then have "handles_inv (?c\<lparr>bar_animate := False\<rparr>)"
    by simp
  with a show ?thesis
    by (simp add: pauseOnHover_def)
qed

lemma handles_inv_foldl:
  assumes "\<And>x s. handles_inv s \<Longrightarrow> handles_inv (f s x)" and "handles_inv s"
  shows "handles_inv (foldl f s xs)"
  using assms(2) by (induction xs arbitrary: s) (simp_all add: assms(1))

lemma handles_inv_mouseenter: "handles_inv s \<Longrightarrow> handles_inv (mouseenter s)"
  unfolding mouseenter_def by (rule handles_inv_foldl) (simp_all add: handles_inv_pauseOnHover)

lemma handles_inv_resumeOnLeave: "handles_inv s \<Longrightarrow> handles_inv (resumeOnLeave k s)"
  by (simp add: resumeOnLeave_def Let_def handles_inv_startModal)

lemma handles_inv_mouseleave: "handles_inv s \<Longrightarrow> handles_inv (mouseleave s)"
  unfolding mouseleave_def by (rule handles_inv_foldl) (simp_all add: handles_inv_resumeOnLeave)

lemma handles_inv_switchMainImage: "handles_inv s \<Longrightarrow> handles_inv (switchMainImage src k s)"
proof -
  assume a: "handles_inv s"
  let ?s1 = "s\<lparr>mainImage_src := src,
               thumbnails := map (\<lambda>(j, th). th\<lparr>t_active := (j = k)\<rparr>) (enumerate 0 (thumbnails s))\<rparr>"
  let ?s2 = "forceResetProgressBar (clear_if_set (rot_progress ?s1) (clear_if_set (rot_modal ?s1) ?s1))"
  have s1: "handles_inv ?s1"
    using a by simp
  then have s2: "handles_inv ?s2"
    by (intro handles_inv_forceResetProgressBar handles_inv_clear_if_set)
  have s3: "handles_inv (snd (setTimeout (CbSwitchRestart imgs i) 150 ?s2))" for imgs i
    using s2 by (rule handles_inv_setTimeout_plain) simp_all
  show ?thesis
    unfolding switchMainImage_def Let_def
    using s1 s2 s3 by (auto split: option.splits)
qed

lemma handles_inv_click_thumbnail: "handles_inv s \<Longrightarrow> handles_inv (click_thumbnail k s)"
  by (simp add: click_thumbnail_def handles_inv_switchMainImage)

lemma handles_inv_restart: "handles_inv s \<Longrightarrow> handles_inv (restartImageRotation s)"
  by (auto simp: restartImageRotation_def handles_inv_startModal split: option.splits)

lemma handles_inv_toggle: "handles_inv s \<Longrightarrow> handles_inv (toggleImageRotation b s)"
  by (auto simp: toggleImageRotation_def
      intro!: handles_inv_restart handles_inv_stopAll)

lemma handles_inv_setInterval: "handles_inv s \<Longrightarrow> handles_inv (setImageRotationInterval i s)"
  by (auto simp: setImageRotationInterval_def Let_def
      intro!: handles_inv_restart)

lemma handles_inv_forceStart: "handles_inv s \<Longrightarrow> handles_inv (forceStartImageRotation s)"
  by (auto simp: forceStartImageRotation_def
      intro!: handles_inv_restart)

lemma handles_inv_test: "handles_inv s \<Longrightarrow> handles_inv (testImageRotation s)"
  by (auto simp: testImageRotation_def Let_def
      intro!: handles_inv_setTimeout_plain handles_inv_startModal)

lemma handles_inv_apply_event: "handles_inv s \<Longrightarrow> handles_inv (apply_event e s)"
  by (cases e)
     (simp_all add: handles_inv_openProductModal handles_inv_closeProductModal
       handles_inv_mouseenter handles_inv_mouseleave handles_inv_click_thumbnail
       handles_inv_toggle handles_inv_setInterval handles_inv_forceStart handles_inv_restart
       handles_inv_stopAll handles_inv_test handles_inv_fire_next
       setImageRotationMode_def time_passes_def)

lemma handles_inv_initial: "handles_inv (initial_ui ps)"
  by (simp add: handles_inv_def initial_ui_def)

lemma reachable_handles_inv: "reachable s \<Longrightarrow> handles_inv s"
  by (induction rule: reachable.induct) (simp_all add: handles_inv_initial handles_inv_apply_event)

lemma handles_inv_at_most_one:
  assumes "handles_inv s"
  shows "length (advance_timers s) \<le> 1" and "length (progress_timers s) \<le> 1"
proof -
  have d: "distinct (map tid (timers s))"
    using assms by (rule handles_invD(2))
  have "distinct (map tid (advance_timers s))" "distinct (map tid (progress_timers s))"
    using d by (simp_all add: advance_timers_def progress_timers_def distinct_map_filter)
  moreover have "\<forall>t\<in>set (advance_timers s). Some (tid t) = rot_modal s"
    using handles_invD(5) [OF assms] by (auto simp: advance_timers_def)
  moreover have "\<forall>t\<in>set (progress_timers s). Some (tid t) = rot_progress s"
    using handles_invD(6) [OF assms] by (auto simp: progress_timers_def)
  moreover have "distinct (map f xs) \<Longrightarrow> \<forall>x\<in>set xs. Some (f x) = c \<Longrightarrow> length xs \<le> 1"
    for f :: "timer \<Rightarrow> nat" and xs c
    by (cases xs rule: list.exhaust [case_names Nil Cons], simp, cases "tl xs", auto)
  ultimately show "length (advance_timers s) \<le> 1" and "length (progress_timers s) \<le> 1"
    by blast+
qed

lemma pre_start_fields:
  "nextTimerId (pre_start s) = nextTimerId s + 1"
  "set (map tid (timers (pre_start s))) \<subseteq>
     insert (nextTimerId s) (set (map tid (timers s)) - {a. 0 < a \<and> (rot_modal s = Some a \<or> rot_progress s = Some a)})"
  by (auto simp: pre_start_def forceResetProgressBar_def setTimeout_def set_timer_def
      clear_if_set_def clearInterval_def split: option.splits if_splits)

lemma start_drops_stored_handles:
  assumes "rot_modal s = Some a" and "rot_progress s = Some b"
    and "0 < a" and "0 < b" and "a < nextTimerId s" and "b < nextTimerId s"
  shows "a \<notin> set (map tid (timers (snd (startModalImageRotationWithIndex images i s))))"
    and "b \<notin> set (map tid (timers (snd (startModalImageRotationWithIndex images i s))))"
  using assms pre_start_fields(2) [of s]
  by (auto simp: start_fields pre_start_fields(1))

text \<open>
  Claim C5: calling start twice in succession leaves exactly one active advance timer and
  one active progress timer. In every state the page can reach there is at most one live
  advance timer and at most one live progress timer; and after two calls of
  \<open>startModalImageRotationWithIndex\<close> in a row the live advance timer and the live progress
  timer are exactly the pair the second call returned and stored, the pair of the first
  call having been cleared.
\<close>

theorem start_twice_one_timer_pair:
  assumes "reachable s"
  shows "length (advance_timers s) \<le> 1 \<and> length (progress_timers s) \<le> 1 \<and>
    (let r1 = startModalImageRotationWithIndex images i s;
         r2 = startModalImageRotationWithIndex images' j (snd r1)
     in map tid (advance_timers (snd r2)) = [fst (fst r2)] \<and>
        map tid (progress_timers (snd r2)) = [snd (fst r2)] \<and>
        rot_modal (snd r2) = Some (fst (fst r2)) \<and>
        rot_progress (snd r2) = Some (snd (fst r2)) \<and>
        fst (fst r1) \<notin> set (map tid (timers (snd r2))) \<and>
        snd (fst r1) \<notin> set (map tid (timers (snd r2))))"
proof -
  have inv: "handles_inv s"
    using assms by (rule reachable_handles_inv)
  let ?r1 = "startModalImageRotationWithIndex images i s"
  let ?r2 = "startModalImageRotationWithIndex images' j (snd ?r1)"
  have inv1: "handles_inv (snd ?r1)"
    using inv by (rule handles_inv_start)
  have e: "map tid (advance_timers (snd ?r2)) = [fst (fst ?r2)]"
      "map tid (progress_timers (snd ?r2)) = [snd (fst ?r2)]"
    using start_establishes(2,3) [OF inv1] by simp_all
  have h: "rot_modal (snd ?r2) = Some (fst (fst ?r2))" "rot_progress (snd ?r2) = Some (snd (fst ?r2))"
    using start_fields(1,3,4) [of images' j "snd ?r1"] by simp_all
  have gone: "fst (fst ?r1) \<notin> set (map tid (timers (snd ?r2)))"
             "snd (fst ?r1) \<notin> set (map tid (timers (snd ?r2)))"
  proof -
    have f: "rot_modal (snd ?r1) = Some (fst (fst ?r1))" "rot_progress (snd ?r1) = Some (snd (fst ?r1))"
      using start_fields(1,3,4) [of images i s] by simp_all
    have pos: "0 < fst (fst ?r1)" "0 < snd (fst ?r1)"
      using start_fields(1) [of images i s] by (simp_all add: pre_start_fields(1))
    have lt: "fst (fst ?r1) < nextTimerId (snd ?r1)" "snd (fst ?r1) < nextTimerId (snd ?r1)"
      using start_fields(1,5) [of images i s] by simp_all
    show "fst (fst ?r1) \<notin> set (map tid (timers (snd ?r2)))"
      using f pos lt by (rule start_drops_stored_handles(1))
    show "snd (fst ?r1) \<notin> set (map tid (timers (snd ?r2)))"
      using f pos lt by (rule start_drops_stored_handles(2))
  qed
  show ?thesis
    using handles_inv_at_most_one [OF inv] e h gone by (simp add: Let_def)
qed

theorem start_twice_one_timer_pair_witness:
  "reachable (fire_next (openProductModal china_product page))
   \<and> (let r1 = startModalImageRotationWithIndex (p_images china_product) 0
                 (fire_next (openProductModal china_product page));
          r2 = startModalImageRotationWithIndex (p_images china_product) 2 (snd r1)
      in map tid (advance_timers (snd r2)) = [fst (fst r2)] \<and>
         map tid (progress_timers (snd r2)) = [snd (fst r2)] \<and>
         fst (fst r1) \<notin> set (map tid (timers (snd r2))) \<and>
         snd (fst r1) \<notin> set (map tid (timers (snd r2))))"
proof -
  have "reachable (apply_event TimerFires (apply_event (OpenProductModal china_product)
      (initial_ui [serbia_product, china_product])))"
    by (intro reachable.intros)
  then have r: "reachable (fire_next (openProductModal china_product page))"
    by (simp add: page_def)
  from start_twice_one_timer_pair [OF r, of "p_images china_product" 0 "p_images china_product" 2] r
  show ?thesis
    by (simp add: Let_def)
qed

subsection \<open>Timers in order of firing\<close>

lemma earliest_None: "earliest ts = None \<longleftrightarrow> ts = []"
  by (cases ts) (simp_all split: option.splits)

lemma before_irrefl: "\<not> before x x"
  by (simp add: before_def)

lemma before_asym: "before a b \<Longrightarrow> \<not> before b a"
  by (auto simp: before_def)

lemma not_before_trans: "\<not> before u v \<Longrightarrow> \<not> before v x \<Longrightarrow> \<not> before u x"
  by (auto simp: before_def)

lemma earliest_Cons:
  "earliest (x # xs) = Some t \<Longrightarrow>
   (xs = [] \<and> t = x) \<or> (\<exists>v. earliest xs = Some v \<and> ((before v x \<and> t = v) \<or> (\<not> before v x \<and> t = x)))"
  by (cases "earliest xs") (simp_all add: earliest_None split: if_splits)

lemma earliest_min: "earliest ts = Some t \<Longrightarrow> u \<in> set ts \<Longrightarrow> \<not> before u t"
proof (induction ts arbitrary: t u)
  case Nil
  then show ?case by simp
next
  case (Cons x xs)
  from earliest_Cons [OF Cons.prems(1)]
  consider "xs = []" "t = x"
    | v where "earliest xs = Some v" "before v x" "t = v"
    | v where "earliest xs = Some v" "\<not> before v x" "t = x"
    by blast
  then show ?case
  proof cases
    case 1
    with Cons.prems(2) show ?thesis by (simp add: before_irrefl)
  next
    case 2
    show ?thesis
    proof (cases "u = x")
      case True
      with 2 show ?thesis by (simp add: before_asym)
    next
      case False
      with Cons.prems(2) have "u \<in> set xs" by simp
      with 2 show ?thesis using Cons.IH by blast
    qed
  next
    case 3
    show ?thesis
    proof (cases "u = x")
      case True
      with 3 show ?thesis by (simp add: before_irrefl)
    next
      case False
      with Cons.prems(2) have "u \<in> set xs" by simp
      then have "\<not> before u v" using 3(1) Cons.IH by blast
      with 3 show ?thesis using not_before_trans by blast
    qed
  qed
qed
lemma calmD:
  assumes "calm a s"
  shows "a \<in> set (timers s)" "now s \<le> due a"
    and "\<And>t. t \<in> set (timers s) \<Longrightarrow> tid t = tid a \<Longrightarrow> t = a"
    and "\<And>t. t \<in> set (timers s) \<Longrightarrow> t \<noteq> a \<Longrightarrow> tid t \<noteq> tid a \<and> harmless (cb t) \<and> period t \<noteq> Some 0"
  using assms by (auto simp: calm_def list_all_iff split: if_splits)

lemma session_view_update:
  assumes "sid < length ss"
  shows "map (\<lambda>se. (s_images se, currentImageIndex se)) (ss[sid := (ss ! sid)\<lparr>progress := p\<rparr>]) =
         map (\<lambda>se. (s_images se, currentImageIndex se)) ss"
proof -
  let ?f = "\<lambda>se. (s_images se, currentImageIndex se)"
  have "map ?f (ss[sid := (ss ! sid)\<lparr>progress := p\<rparr>]) = (map ?f ss)[sid := ?f ((ss ! sid)\<lparr>progress := p\<rparr>)]"
    by (rule map_update)
  also have "?f ((ss ! sid)\<lparr>progress := p\<rparr>) = map ?f ss ! sid"
    using assms by simp
  also have "(map ?f ss)[sid := map ?f ss ! sid] = map ?f ss"
    by (rule list_update_id)
  finally show ?thesis .
qed

lemma updateProgress_timers: "timers (updateProgress sid s) = timers s"
  unfolding updateProgress_def Let_def by (simp split: option.splits)

lemma updateProgress_now: "now (updateProgress sid s) = now s"
  unfolding updateProgress_def Let_def by (simp split: option.splits)

lemma updateProgress_view: "view (updateProgress sid s) = view s"
  unfolding updateProgress_def Let_def view_def
  by (simp add: session_view_update split: option.splits)


lemma harmless_callback:
  assumes "harmless c"
  shows "timers (run_callback c s) = timers s" and "now (run_callback c s) = now s"
    and "view (run_callback c s) = view s"
proof -
  from assms consider sid where "c = CbProgress sid" | x where "c = CbRestoreTransition x"
    | "c = CbClearTransition"
    by (cases c) (simp_all add: harmless_def)
  then have "timers (run_callback c s) = timers s \<and> now (run_callback c s) = now s \<and>
      view (run_callback c s) = view s"
  proof cases
    case 1
    then show ?thesis
      by (simp add: updateProgress_timers updateProgress_now updateProgress_view)
  next
    case 2
    then show ?thesis by (simp add: view_def)
  next
    case 3
    then show ?thesis by (simp add: view_def)
  qed
  then show "timers (run_callback c s) = timers s" and "now (run_callback c s) = now s"
    and "view (run_callback c s) = view s"
    by simp_all
qed

lemma sum_list_strict:
  fixes f g :: "'a \<Rightarrow> nat"
  assumes "\<And>x. x \<in> set xs \<Longrightarrow> f x \<le> g x" and "y \<in> set xs" and "f y < g y"
  shows "sum_list (map f xs) < sum_list (map g xs)"
  using assms
proof (induction xs)
  case Nil
  then show ?case by simp
next
  case (Cons x xs)
  show ?case
  proof (cases "y = x")
    case True
    have "sum_list (map f xs) \<le> sum_list (map g xs)"
      using Cons.prems(1) by (intro sum_list_mono) simp
    with True Cons.prems(3) show ?thesis by simp
  next
    case False
    with Cons.prems have "y \<in> set xs" by simp
    then have "sum_list (map f xs) < sum_list (map g xs)"
      using Cons.prems by (intro Cons.IH) simp_all
    moreover have "f x \<le> g x" using Cons.prems(1) by simp
    ultimately show ?thesis by simp
  qed
qed

lemma sum_list_filter_strict:
  fixes g :: "'a \<Rightarrow> nat"
  assumes "y \<in> set xs" and "\<not> P y" and "0 < g y"
  shows "sum_list (map g (filter P xs)) < sum_list (map g xs)"
  using assms
proof (induction xs)
  case Nil
  then show ?case by simp
next
  case (Cons x xs)
  have le: "sum_list (map g (filter P xs)) \<le> sum_list (map g xs)"
    by (induction xs) auto
  show ?case
  proof (cases "y = x")
    case True
    with Cons.prems le show ?thesis by simp
  next
    case False
    with Cons.prems have "sum_list (map g (filter P xs)) < sum_list (map g xs)"
      by (intro Cons.IH) simp_all
    then show ?thesis by simp
  qed
qed

text \<open>Firing a timer other than \<open>a\<close> in a calm state.\<close>

lemma calm_fire:
  assumes c: "calm a s" and e: "earliest (timers s) = Some t" and ne: "t \<noteq> a"
  shows "calm a (fire t s)" and "slack a (fire t s) < slack a s" and "view (fire t s) = view s"
proof -
  have tm: "t \<in> set (timers s)" using e by (rule earliest_mem)
  have am: "a \<in> set (timers s)" using c by (rule calmD(1))
  have th: "tid t \<noteq> tid a" "harmless (cb t)" "period t \<noteq> Some 0"
    using calmD(4) [OF c tm ne] by simp_all
  have "\<not> before a t" using e am by (rule earliest_min)
  with th(1) have bt: "before t a" by (auto simp: before_def)
  then have dt: "due t \<le> due a" by (auto simp: before_def)
  let ?s' = "s\<lparr>now := max (now s) (due t), timers := reschedule t (timers s)\<rparr>"
  have f: "timers (fire t s) = reschedule t (timers s)" "now (fire t s) = max (now s) (due t)"
    "view (fire t s) = view ?s'"
    using harmless_callback [OF th(2), of ?s'] by (simp_all add: fire_def)
  show "view (fire t s) = view s"
    unfolding f(3) by (simp add: view_def)
  show "calm a (fire t s)"
  proof -
    have "a \<in> set (reschedule t (timers s))"
      using am th(1) by (auto simp: reschedule_def split: option.splits)
    moreover have "max (now s) (due t) \<le> due a"
      using calmD(2) [OF c] dt by simp
    moreover have "list_all (\<lambda>u. if tid u = tid a then u = a else harmless (cb u) \<and> period u \<noteq> Some 0)
        (reschedule t (timers s))"
      using c th(1) by (auto simp: calm_def list_all_iff reschedule_def split: option.splits if_splits)
    ultimately show ?thesis
      by (simp add: calm_def f)
  qed
  show "slack a (fire t s) < slack a s"
  proof (cases "period t")
    case None
    have "0 < slack_of a t"
      using th(1) bt None by (simp add: slack_of_def)
    then have "sum_list (map (slack_of a) (filter (\<lambda>u. tid u \<noteq> tid t) (timers s)))
        < sum_list (map (slack_of a) (timers s))"
      using tm by (intro sum_list_filter_strict [of t]) simp_all
    with None show ?thesis
      by (simp add: slack_def f reschedule_def)
  next
    case (Some p)
    with th(3) have p: "0 < p" by simp
    let ?f = "\<lambda>u. if tid u = tid t then u\<lparr>due := due u + p\<rparr> else u"
    have le: "slack_of a (?f u) \<le> slack_of a u" for u
      by (auto simp: slack_of_def before_def split: option.splits)
    have lt: "slack_of a (?f t) < slack_of a t"
      using th(1) bt Some p dt by (auto simp: slack_of_def before_def)
    have "sum_list (map (\<lambda>u. slack_of a (?f u)) (timers s)) < sum_list (map (slack_of a) (timers s))"
      using tm le lt by (intro sum_list_strict [of _ _ _ t]) simp_all
    with Some show ?thesis
      by (simp add: slack_def f reschedule_def comp_def)
  qed
qed

text \<open>In a calm state the timer \<open>a\<close> comes to fire, and nothing shown changes before.\<close>

lemma calm_reaches:
  "calm a s \<Longrightarrow>
   \<exists>m. earliest (timers ((fire_next ^^ m) s)) = Some a \<and> calm a ((fire_next ^^ m) s) \<and>
       (\<forall>j\<le>m. view ((fire_next ^^ j) s) = view s)"
proof (induction "slack a s" arbitrary: s rule: less_induct)
  case less
  have "timers s \<noteq> []" using calmD(1) [OF less.prems] by auto
  then obtain t where e: "earliest (timers s) = Some t"
    by (cases "earliest (timers s)") (simp_all add: earliest_None)
  show ?case
  proof (cases "t = a")
    case True
    with e less.prems have "earliest (timers ((fire_next ^^ 0) s)) = Some a \<and> calm a ((fire_next ^^ 0) s) \<and>
       (\<forall>j\<le>0. view ((fire_next ^^ j) s) = view s)" by simp
    then show ?thesis by blast
  next
    case False
    have fn: "fire_next s = fire t s" using e by (simp add: fire_next_def)
    note cf = calm_fire [OF less.prems e False]
    obtain m where m: "earliest (timers ((fire_next ^^ m) (fire t s))) = Some a"
      "calm a ((fire_next ^^ m) (fire t s))"
      "\<forall>j\<le>m. view ((fire_next ^^ j) (fire t s)) = view (fire t s)"
      using less.hyps [OF cf(2) cf(1)] by blast
    have sw: "(fire_next ^^ Suc j) s = (fire_next ^^ j) (fire t s)" for j
      by (simp add: funpow_swap1 fn)
    have "\<forall>j\<le>Suc m. view ((fire_next ^^ j) s) = view s"
    proof (intro allI impI)
      fix j assume "j \<le> Suc m"
      show "view ((fire_next ^^ j) s) = view s"
      proof (cases j)
        case 0
        then show ?thesis by simp
      next
        case (Suc j')
        with \<open>j \<le> Suc m\<close> have "j' \<le> m" by simp
        with m(3) cf(3) Suc show ?thesis by (simp only: sw; simp)
      qed
    qed
    with m(1,2) have "earliest (timers ((fire_next ^^ Suc m) s)) = Some a \<and>
        calm a ((fire_next ^^ Suc m) s) \<and> (\<forall>j\<le>Suc m. view ((fire_next ^^ j) s) = view s)"
      by (simp only: sw; simp)
    then show ?thesis by blast
  qed
qed

subsection \<open>The first advance of a rotation\<close>

lemma pre_start_keeps:
  "now (pre_start s) = now s" "rot_interval (pre_start s) = rot_interval s"
  "sessions (pre_start s) = sessions s" "thumbnails (pre_start s) = thumbnails s"
  "mainImage_src (pre_start s) = mainImage_src s"
  by (simp_all add: pre_start_def forceResetProgressBar_def setTimeout_def set_timer_def
      clear_if_set_def clearInterval_def split: option.splits)

lemma pre_start_timers_quiet:
  assumes "quiet s"
  shows "list_all (\<lambda>t. tid t \<le> nextTimerId s \<and> harmless (cb t) \<and> period t \<noteq> Some 0) (timers (pre_start s))"
proof -
  have a: "\<And>t. t \<in> set (timers s) \<Longrightarrow> tid t < nextTimerId s \<and>
      ((0 < tid t \<and> (rot_modal s = Some (tid t) \<or> rot_progress s = Some (tid t))) \<or>
       (harmless (cb t) \<and> period t \<noteq> Some 0))"
    using assms by (simp add: quiet_def list_all_iff)
  let ?c = "clear_if_set (rot_progress s) (clear_if_set (rot_modal s) s)"
  have c: "\<And>t. t \<in> set (timers ?c) \<Longrightarrow> t \<in> set (timers s) \<and>
      \<not> (0 < tid t \<and> (rot_modal s = Some (tid t) \<or> rot_progress s = Some (tid t)))"
    by (auto simp: clear_if_set_def clearInterval_def split: option.splits if_splits)
  have "\<And>t. t \<in> set (timers ?c) \<Longrightarrow> tid t \<le> nextTimerId s \<and> harmless (cb t) \<and> period t \<noteq> Some 0"
    using a c by (metis less_imp_le_nat)
  moreover have "timers (pre_start s) = timers ?c @
      [\<lparr>tid = nextTimerId s, due = now s + 150, period = None, cb = CbRestoreTransition (bar_transition s)\<rparr>]"
    by (simp add: pre_start_def forceResetProgressBar_def setTimeout_def set_timer_def
        clear_if_set_def clearInterval_def split: option.splits)
  ultimately show ?thesis
    by (auto simp: list_all_iff harmless_def)
qed

lemma start_view:
  "view (snd (startModalImageRotationWithIndex images i s)) =
     (mainImage_src s, thumbnails s,
      map (\<lambda>se. (s_images se, currentImageIndex se)) (sessions s) @ [(images, Some i)])"
  unfolding startModalImageRotationWithIndex_def Let_def view_def pre_start_def [symmetric]
  by (simp add: setInterval_def set_timer_def pre_start_keeps)

lemma start_now: "now (snd (startModalImageRotationWithIndex images i s)) = now s"
  unfolding startModalImageRotationWithIndex_def Let_def pre_start_def [symmetric]
  by (simp add: setInterval_def set_timer_def pre_start_keeps)

lemma start_calm:
  assumes "quiet s"
  shows "calm (advance_timer s) (snd (startModalImageRotationWithIndex images i s))"
proof -
  note f = start_fields(2) [of images i s]
  note q = pre_start_timers_quiet [OF assms]
  have a: "advance_timer s = \<lparr>tid = nextTimerId (pre_start s), due = now (pre_start s) + rot_interval (pre_start s),
      period = Some (rot_interval (pre_start s)), cb = CbRotate (length (sessions (pre_start s)))\<rparr>"
    by (simp add: advance_timer_def pre_start_keeps pre_start_fields(1))
  show ?thesis
    unfolding calm_def f start_now a [symmetric]
    using q by (auto simp: a list_all_iff pre_start_fields(1) pre_start_keeps harmless_def)
qed

lemma image_at_next:
  assumes "- 1 \<le> i" and "0 < length images"
  shows "next_index (Some i) (length images) = Some ((i + 1) mod int (length images))"
    and "image_at images (Some ((i + 1) mod int (length images))) = images ! nat ((i + 1) mod int (length images))"
  using assms by (simp_all add: next_index_def js_rem_def image_at_def)
lemma updateActiveThumbnail_active:
  "map t_active (updateActiveThumbnail (Some k) ths) = map (\<lambda>j. int j = k) [0..<length ths]"
proof (rule nth_equalityI)
  show "length (map t_active (updateActiveThumbnail (Some k) ths)) = length (map (\<lambda>j. int j = k) [0..<length ths])"
    by (simp add: updateActiveThumbnail_def)
next
  fix j assume "j < length (map t_active (updateActiveThumbnail (Some k) ths))"
  then have j: "j < length ths" by (simp add: updateActiveThumbnail_def)
  then show "map t_active (updateActiveThumbnail (Some k) ths) ! j = map (\<lambda>j. int j = k) [0..<length ths] ! j"
    by (simp add: updateActiveThumbnail_def nth_enumerate_eq)
qed
lemma view_session:
  assumes "view s = (src, ths, vs @ [(images, Some i)])"
  shows "length vs < length (sessions s)" and "s_images (sessions s ! length vs) = images"
    and "currentImageIndex (sessions s ! length vs) = Some i"
    and "mainImage_src s = src" and "thumbnails s = ths"
proof -
  let ?f = "\<lambda>se. (s_images se, currentImageIndex se)"
  have m: "map ?f (sessions s) = vs @ [(images, Some i)]"
    and "mainImage_src s = src" and "thumbnails s = ths"
    using assms by (simp_all add: view_def)
  then show "mainImage_src s = src" and "thumbnails s = ths" by simp_all
  have "length (map ?f (sessions s)) = length (vs @ [(images, Some i)])"
    by (simp only: m)
  then have l: "length (sessions s) = Suc (length vs)"
    by simp
  then show "length vs < length (sessions s)" by simp
  have "map ?f (sessions s) ! length vs = (images, Some i)"
    by (simp only: m nth_append_length)
  moreover have "map ?f (sessions s) ! length vs = ?f (sessions s ! length vs)"
    using l by (intro nth_map) simp
  ultimately have "?f (sessions s ! length vs) = (images, Some i)"
    by simp
  then show "s_images (sessions s ! length vs) = images"
    and "currentImageIndex (sessions s ! length vs) = Some i" by simp_all
qed

lemma rotateImages_fields:
  assumes "sid < length (sessions s)"
  defines "idx \<equiv> next_index (currentImageIndex (sessions s ! sid)) (length (s_images (sessions s ! sid)))"
  shows "mainImage_src (rotateImages sid s) = image_at (s_images (sessions s ! sid)) idx"
    and "thumbnails (rotateImages sid s) = updateActiveThumbnail idx (thumbnails s)"
    and "bar_width (rotateImages sid s) = 0"
    and "now (rotateImages sid s) = now s"
    and "currentImageIndex (sessions (rotateImages sid s) ! sid) = idx"
  using assms(1) unfolding idx_def rotateImages_def Let_def setTimeout_def set_timer_def
  by simp_all


lemma rotateImages_result:
  assumes "sid < length (sessions s)" and "s_images (sessions s ! sid) = images"
    and "currentImageIndex (sessions s ! sid) = Some i" and "- 1 \<le> i" and "0 < length images"
  shows "mainImage_src (rotateImages sid s) = images ! nat ((i + 1) mod int (length images))"
    and "map t_active (thumbnails (rotateImages sid s)) =
           map (\<lambda>j. int j = (i + 1) mod int (length images)) [0..<length (thumbnails s)]"
    and "bar_width (rotateImages sid s) = 0"
    and "now (rotateImages sid s) = now s"
    and "currentImageIndex (sessions (rotateImages sid s) ! sid) = Some ((i + 1) mod int (length images))"
proof -
  note f = rotateImages_fields [OF assms(1)]
  note n = image_at_next [OF assms(4,5)]
  have idx: "next_index (currentImageIndex (sessions s ! sid)) (length (s_images (sessions s ! sid))) =
      Some ((i + 1) mod int (length images))"
    by (subst assms(2), subst assms(3), rule n(1))
  show "mainImage_src (rotateImages sid s) = images ! nat ((i + 1) mod int (length images))"
    by (subst f(1), subst idx, subst assms(2), rule n(2))
  show "map t_active (thumbnails (rotateImages sid s)) =
           map (\<lambda>j. int j = (i + 1) mod int (length images)) [0..<length (thumbnails s)]"
    by (subst f(2), subst idx, rule updateActiveThumbnail_active)
  show "bar_width (rotateImages sid s) = 0" by (rule f(3))
  show "now (rotateImages sid s) = now s" by (rule f(4))
  show "currentImageIndex (sessions (rotateImages sid s) ! sid) = Some ((i + 1) mod int (length images))"
    by (subst f(5), rule idx)
qed

text \<open>
  Claim C7: a rotation started over \<open>n > 1\<close> images from the index \<open>start\<close>, in a state
  where nothing else is pending but the stored handles and harmless timers, comes to the
  first firing of its advance timer: the clock then stands at the start time plus the
  interval, the main image is the image of index \<open>(start + 1) mod n\<close>, the session stands
  at that index, the thumbnail of that index and no other is marked active, and the
  progress bar has been set to 0. No firing before that one changes the main image or the
  thumbnails. (A progress tick due at the same instant fires after the advance timer, which
  was created first.)
\<close>

theorem rotation_first_advance:
  assumes q: "quiet s0" and n: "1 < length images" and st: "- 1 \<le> start"
  shows "\<exists>k. let s1 = snd (startModalImageRotationWithIndex images start s0);
               sk = (fire_next ^^ k) s1;
               nxt = (start + 1) mod int (length images)
           in now sk = now s0 + rot_interval s0 \<and>
              mainImage_src sk = images ! nat nxt \<and>
              currentImageIndex (sessions sk ! length (sessions s0)) = Some nxt \<and>
              map t_active (thumbnails sk) = map (\<lambda>j. int j = nxt) [0..<length (thumbnails s0)] \<and>
              bar_width sk = 0 \<and>
              (\<forall>j<k. mainImage_src ((fire_next ^^ j) s1) = mainImage_src s0 \<and>
                      thumbnails ((fire_next ^^ j) s1) = thumbnails s0)"
proof -
  let ?s1 = "snd (startModalImageRotationWithIndex images start s0)"
  let ?a = "advance_timer s0"
  let ?nxt = "(start + 1) mod int (length images)"
  let ?sid = "length (sessions s0)"
  have "calm ?a ?s1" using q by (rule start_calm)
  then obtain m where m: "earliest (timers ((fire_next ^^ m) ?s1)) = Some ?a"
    "calm ?a ((fire_next ^^ m) ?s1)"
    "\<forall>j\<le>m. view ((fire_next ^^ j) ?s1) = view ?s1"
    using calm_reaches by blast
  let ?sm = "(fire_next ^^ m) ?s1"
  let ?sm' = "?sm\<lparr>now := max (now ?sm) (due ?a), timers := reschedule ?a (timers ?sm)\<rparr>"
  have v: "view ?sm = (mainImage_src s0, thumbnails s0,
      map (\<lambda>se. (s_images se, currentImageIndex se)) (sessions s0) @ [(images, Some start)])"
    using m(3) by (simp add: start_view)
  note vs = view_session [OF v]
  have sid: "?sid < length (sessions ?sm')" "s_images (sessions ?sm' ! ?sid) = images"
    "currentImageIndex (sessions ?sm' ! ?sid) = Some start"
    using vs(1-3) by simp_all
  have pos: "0 < length images" using n by auto
  have fire: "(fire_next ^^ Suc m) ?s1 = rotateImages ?sid ?sm'"
    using m(1) by (simp add: fire_next_def fire_def advance_timer_def)
  have nw: "now ?sm' = now s0 + rot_interval s0"
    using calmD(2) [OF m(2)] by (simp add: advance_timer_def max_def)
  note r = rotateImages_result [OF sid st pos]
  have before: "\<forall>j<Suc m. mainImage_src ((fire_next ^^ j) ?s1) = mainImage_src s0 \<and>
      thumbnails ((fire_next ^^ j) ?s1) = thumbnails s0"
  proof (intro allI impI)
    fix j assume "j < Suc m"
    then have "view ((fire_next ^^ j) ?s1) = view ?s1" using m(3) by simp
    then have "view ((fire_next ^^ j) ?s1) = (mainImage_src s0, thumbnails s0,
      map (\<lambda>se. (s_images se, currentImageIndex se)) (sessions s0) @ [(images, Some start)])"
      by (simp add: start_view)
    from view_session(4,5) [OF this]
    show "mainImage_src ((fire_next ^^ j) ?s1) = mainImage_src s0 \<and>
      thumbnails ((fire_next ^^ j) ?s1) = thumbnails s0" by simp
  qed
  have th: "thumbnails ?sm' = thumbnails s0"
    using vs(5) by simp
  have c1: "now (rotateImages ?sid ?sm') = now s0 + rot_interval s0"
    by (simp only: r(4) nw)
  have c4: "map t_active (thumbnails (rotateImages ?sid ?sm')) = map (\<lambda>j. int j = ?nxt) [0..<length (thumbnails s0)]"
    by (simp only: r(2) th)
  have "now (rotateImages ?sid ?sm') = now s0 + rot_interval s0 \<and>
      mainImage_src (rotateImages ?sid ?sm') = images ! nat ?nxt \<and>
      currentImageIndex (sessions (rotateImages ?sid ?sm') ! ?sid) = Some ?nxt \<and>
      map t_active (thumbnails (rotateImages ?sid ?sm')) = map (\<lambda>j. int j = ?nxt) [0..<length (thumbnails s0)] \<and>
      bar_width (rotateImages ?sid ?sm') = 0"
    using c1 r(1) r(5) c4 r(3) by blast
  with before show ?thesis
    unfolding Let_def fire [symmetric] by (intro exI [of _ "Suc m"]) blast
qed

subsection \<open>Runs of the page\<close>

lemma run_due_unfold:
  "run_due fuel deadline s =
     (if fuel = 0 then None
      else case earliest (timers s) of
             None \<Rightarrow> Some (s\<lparr>now := deadline\<rparr>)
           | Some t \<Rightarrow> if due t \<le> deadline then run_due (fuel - 1) deadline (fire t s)
                       else Some (s\<lparr>now := deadline\<rparr>))"
  by (cases fuel) (simp_all cong: option.case_cong if_cong)

lemmas ui_eval =
  initial_ui_def openProductModal_def fillModalContent_def createImageGallery_def showModal_def
  image_at_def setTimeout_def setInterval_def set_timer_def clearInterval_def clear_if_set_def
  forceResetProgressBar_def startModalImageRotationWithIndex_def startModalImageRotation_def
  js_rem_def next_index_def updateActiveThumbnail_def rotateImages_def progress_step_def
  add_progress_def updateProgress_def open_delayed_def switch_restart_def test_stop_def
  before_def reschedule_def fire_def fire_next_def advance_time_def time_passes_def
  pauseOnHover_def mouseenter_def resumeOnLeave_def mouseleave_def switchMainImage_def
  click_thumbnail_def stopAllImageRotation_def closeProductModal_def restartImageRotation_def
  toggleImageRotation_def setImageRotationInterval_def setImageRotationMode_def
  forceStartImageRotation_def testImageRotation_def china_product_def serbia_product_def
  Let_def enumerate_eq_zip run_due_unfold

lemma opened_eq: "opened = Some opened_state"
  by (simp add: opened_def page_def opened_state_def ui_eval)

lemma closed_eq: "closed_after_click = Some closed_state"
  unfolding closed_after_click_def opened_eq
  by (simp add: opened_state_def closed_state_def ui_eval)

lemma resumed_from_rotated: "map_option (\<lambda>s. mouseleave (mouseenter s)) (Some rotated_state) = Some resumed_state"
  by (simp add: rotated_state_def resumed_state_def ui_eval upt_rec)

theorem rotation_first_advance_witness:
  "\<exists>k. let s1 = snd (startModalImageRotationWithIndex (p_images china_product) 0 gallery_shown);
           sk = (fire_next ^^ k) s1
       in now sk = 3000 \<and> mainImage_src sk = ''img/tea2.jpg'' \<and>
          map t_active (thumbnails sk) = [False, True, False] \<and> bar_width sk = 0"
proof -
  have q: "quiet gallery_shown"
    by (simp add: quiet_def gallery_shown_def page_def ui_eval)
  have n: "1 < length (p_images china_product)" and s: "- 1 \<le> (0::int)"
    by (simp_all add: china_product_def)
  have g: "now gallery_shown = 0" "rot_interval gallery_shown = 3000"
    "length (thumbnails gallery_shown) = 3"
    by (simp_all add: gallery_shown_def page_def ui_eval)
  have i: "p_images china_product ! nat ((0 + 1) mod int (length (p_images china_product))) = ''img/tea2.jpg''"
    "map (\<lambda>j. int j = (0 + 1) mod int (length (p_images china_product))) [0..<3] = [False, True, False]"
    by (simp_all add: china_product_def upt_rec)
  from rotation_first_advance [OF q n s] obtain k where
    "let s1 = snd (startModalImageRotationWithIndex (p_images china_product) 0 gallery_shown);
         sk = (fire_next ^^ k) s1;
         nxt = (0 + 1) mod int (length (p_images china_product))
     in now sk = now gallery_shown + rot_interval gallery_shown \<and>
        mainImage_src sk = p_images china_product ! nat nxt \<and>
        currentImageIndex (sessions sk ! length (sessions gallery_shown)) = Some nxt \<and>
        map t_active (thumbnails sk) = map (\<lambda>j. int j = nxt) [0..<length (thumbnails gallery_shown)] \<and>
        bar_width sk = 0 \<and>
        (\<forall>j<k. mainImage_src ((fire_next ^^ j) s1) = mainImage_src gallery_shown \<and>
                thumbnails ((fire_next ^^ j) s1) = thumbnails gallery_shown)"
    by blast
  then show ?thesis
    unfolding Let_def g i by (intro exI [of _ k]) simp
qed

lemma rotated_eq: "rotated_once = Some rotated_state"
  unfolding rotated_once_def opened_eq
  by (simp add: opened_state_def rotated_state_def ui_eval)

lemma resumed_eq: "resumed = Some resumed_state"
  unfolding resumed_def rotated_eq by (rule resumed_from_rotated)

text \<open>
  Claim C1 says that \<open>resume()\<close> re-arms the timers from the index displayed when the
  rotation was paused. The modal is opened for the product with three images and the
  rotation advances once, so the second image (index 1) is shown. The pointer enters and
  leaves: \<open>resumeOnLeave\<close> calls \<open>startModalImageRotation\<close>, which starts from index 0,
  so the session now armed stands at index 0 while the image shown has index 1. One
  interval later the advance timer moves that session to index 1 and the second image is
  shown again, not the third.
\<close>

theorem resume_restarts_from_first_image:
  "map_option (\<lambda>s. (mainImage_src s, map currentImageIndex (sessions s))) rotated_once =
     Some (''img/tea2.jpg'', [Some 1])
   \<and> map_option (\<lambda>s. (mainImage_src s, map currentImageIndex (sessions s), map cb (advance_timers s))) resumed =
     Some (''img/tea2.jpg'', [Some 1, Some 0], [CbRotate 1])
   \<and> map_option (\<lambda>s. (mainImage_src s, map currentImageIndex (sessions s), now s)) resumed_later =
     Some (''img/tea2.jpg'', [Some 1, Some 1], 6100)"
proof -
  have "map_option (\<lambda>s. (mainImage_src s, map currentImageIndex (sessions s), now s))
      (Option.bind (Some resumed_state) (advance_time 100 3000)) = Some (''img/tea2.jpg'', [Some 1, Some 1], 6100)"
    by (simp add: resumed_state_def ui_eval)
  then show ?thesis
    unfolding resumed_later_def resumed_eq rotated_eq
    by (simp add: rotated_state_def resumed_state_def advance_timers_def is_advance_def)
qed

text \<open>
  Claim C8 says that after \<open>closeModal()\<close> no image change follows. A thumbnail is clicked
  while the rotation runs and the modal is closed 50 ms later: \<open>closeProductModal\<close> finds
  the stored handles already cleared, and the restart that \<open>switchMainImage\<close> delayed by
  150 ms is still pending. It fires with the modal closed, starts the rotation without
  looking at the modal, and one interval later the main image changes to the third image.
\<close>

theorem restart_after_close_changes_image:
  "map_option (\<lambda>s. (modal_display s, mainImage_src s, map cb (timers s))) closed_after_click =
     Some (''none'', ''img/tea2.jpg'',
           [CbRestoreTransition [], CbRestoreTransition ''width 0.1s ease-out'',
            CbSwitchRestart [''img/tea1.jpg'', ''img/tea2.jpg'', ''img/tea3.jpg''] 1])
   \<and> map_option (\<lambda>s. (modal_display s, mainImage_src s, now s)) closed_later =
     Some (''none'', ''img/tea3.jpg'', 3350)"
proof -
  have "map_option (\<lambda>s. (modal_display s, mainImage_src s, now s))
      (Option.bind (Some closed_state) (advance_time 100 3200)) = Some (''none'', ''img/tea3.jpg'', 3350)"
    by (simp add: closed_state_def ui_eval)
  then show ?thesis
    unfolding closed_later_def closed_eq
    by (simp add: closed_state_def)
qed

text \<open>
  Claim C6 says that no operation starts a rotation for a product with fewer than two
  images. Opening the modal for the product with one image arms nothing, but
  \<open>restartImageRotation\<close>, and with it \<open>setImageRotationInterval\<close> and
  \<open>forceStartImageRotation\<close>, then arms the advance and progress timers over the single
  thumbnail: it has no test of the number of images.
\<close>

theorem single_image_rotation_started:
  "length (p_images serbia_product) = 1
   \<and> timers single_opened = []
   \<and> map cb (timers (setImageRotationInterval 3000 single_opened)) =
       [CbRestoreTransition [], CbRotate 0, CbProgress 0]
   \<and> map s_images (sessions (setImageRotationInterval 3000 single_opened)) = [[''img/rakija.jpg'']]
   \<and> map cb (timers (forceStartImageRotation single_opened)) =
       [CbRestoreTransition [], CbRotate 0, CbProgress 0]
   \<and> map cb (timers (restartImageRotation single_opened)) =
       [CbRestoreTransition [], CbRotate 0, CbProgress 0]"
  by (simp add: single_opened_def page_def ui_eval)

end
